theory Spec2Isabelle
  imports Main "HOL-Library.Multiset" "HOL-Library.AList"
begin

section \<open>JavaScript values used by the extension\<close>

text \<open>
  Numbers.  The scripts compute with whole seconds, with \<open>NaN\<close> (a text that is not a
  number) and with \<open>Infinity\<close> (a video without a time label).  \<open>number\<close> is the
  JavaScript number type cut down to the integers, on which double arithmetic is exact
  below \<open>2^53\<close>, together with the three special values.
\<close>

datatype number = Num int | PosInf | NegInf | NaN

fun n_add :: "number \<Rightarrow> number \<Rightarrow> number" where
  "n_add NaN _ = NaN"
| "n_add _ NaN = NaN"
| "n_add PosInf NegInf = NaN"
| "n_add NegInf PosInf = NaN"
| "n_add PosInf _ = PosInf"
| "n_add _ PosInf = PosInf"
| "n_add NegInf _ = NegInf"
| "n_add _ NegInf = NegInf"
| "n_add (Num a) (Num b) = Num (a + b)"

fun n_sign :: "number \<Rightarrow> int" where
  "n_sign (Num a) = sgn a"
| "n_sign PosInf = 1"
| "n_sign NegInf = - 1"
| "n_sign NaN = 0"

fun n_mul :: "number \<Rightarrow> number \<Rightarrow> number" where
  "n_mul NaN _ = NaN"
| "n_mul _ NaN = NaN"
| "n_mul (Num a) (Num b) = Num (a * b)"
| "n_mul x y =
     (if n_sign x * n_sign y = 0 then NaN
      else if n_sign x * n_sign y > 0 then PosInf else NegInf)"

subsection \<open>Strings: \<open>split\<close>, \<open>Number\<close>, \<open>toString\<close>, \<open>padStart\<close>\<close>

text \<open>\<open>s.split(sep)\<close> for a one-character separator; the empty string splits into one empty part.\<close>

fun split :: "char \<Rightarrow> string \<Rightarrow> string list" where
  "split sep [] = [[]]"
| "split sep (c # cs) =
     (if c = sep then [] # split sep cs
      else (case split sep cs of [] \<Rightarrow> [[c]] | p # ps \<Rightarrow> (c # p) # ps))"

definition isDigit :: "char \<Rightarrow> bool" where
  "isDigit c = (48 \<le> (of_char c :: nat) \<and> (of_char c :: nat) \<le> 57)"

definition digitVal :: "char \<Rightarrow> int" where
  "digitVal c = int (of_char c) - 48"

text \<open>
  \<open>Number(s)\<close> and the unary \<open>+s\<close>, on the texts a time label is made of: the empty
  string is 0, a run of decimal digits is its value (leading zeros allowed), and a text
  with any other character is taken as \<open>NaN\<close>.  Signs, fractions, exponents, other
  radixes and surrounding blanks, which JavaScript also accepts, are outside this model.
\<close>

definition Number :: "string \<Rightarrow> number" where
  "Number s =
     (if list_all isDigit s then Num (foldl (\<lambda>acc c. 10 * acc + digitVal c) 0 s) else NaN)"

definition digitChar :: "nat \<Rightarrow> char" where
  "digitChar d = char_of (48 + d)"

text \<open>\<open>n.toString()\<close> for a non-negative integer: its decimal digits.\<close>

function toString :: "nat \<Rightarrow> string" where
  "toString n = (if n < 10 then [digitChar n] else toString (n div 10) @ [digitChar (n mod 10)])"
  by pat_completeness auto
termination
  by (relation "measure id") auto

declare toString.simps [simp del]


section \<open>Duration parsing and formatting\<close>


text \<open>\<^verbatim>\<open>content_script.js\<close>, \<open>parseTime\<close>: the empty string is falsy and gives \<open>Infinity\<close>.\<close>

definition parseTime :: "string \<Rightarrow> number" where
  "parseTime timeStr =
     (if timeStr = [] then PosInf
      else
        let parts = map Number (split (CHR '':'') timeStr);
            seconds = Num 0
        in if length parts = 3 then
             n_add (n_add (n_add seconds (n_mul (parts ! 0) (Num 3600)))
                          (n_mul (parts ! 1) (Num 60)))
                   (parts ! 2)
           else if length parts = 2 then
             n_add (n_add seconds (n_mul (parts ! 0) (Num 60))) (parts ! 1)
           else if length parts = 1 then
             n_add seconds (parts ! 0)
           else seconds)"


section \<open>The shared status record\<close>

text \<open>
  A scraped video, as \<open>generateReorderPlan\<close> builds it:
  \<^verbatim>\<open>{ duration: durationSeconds, title: ... }\<close>.  The duration is a whole number
  of seconds, the value of \<open>durationSeconds\<close> on a time label made of digits; a label
  that is no number has no duration (\<open>NaN\<close>) and is not a video in this sense.
\<close>

record video =
  duration :: int
  title :: string

text \<open>
  Objects are lists of fields in insertion order; \<open>chrome.storage.local\<close> maps keys to
  objects.  \<open>JTimestamp\<close> stands for the reading of \<open>Date.now()\<close>.
\<close>

datatype js_value = JString string | JNumber int | JPlan "video list" | JTimestamp

type_synonym js_object = "(string \<times> js_value) list"

type_synonym local_storage = "(string \<times> js_object) list"

text \<open>\<^verbatim>\<open>chrome.storage.local.set({ [key]: value })\<close>\<close>

definition storageSet :: "string \<Rightarrow> js_object \<Rightarrow> local_storage \<Rightarrow> local_storage" where
  "storageSet key val st = AList.update key val st"

text \<open>\<^verbatim>\<open>chrome.storage.local.get(key)\<close>\<close>

definition storageGet :: "string \<Rightarrow> local_storage \<Rightarrow> js_object option" where
  "storageGet key st = map_of st key"

text \<open>A field of the object stored under \<open>reorder_status\<close>, if there is one.\<close>

definition statusField :: "string \<Rightarrow> local_storage \<Rightarrow> js_value option" where
  "statusField field st =
     (case storageGet ''reorder_status'' st of None \<Rightarrow> None | Some obj \<Rightarrow> map_of obj field)"

text \<open>
  \<^verbatim>\<open>const status = { state, processed, total, message, plan, timestamp: Date.now() }\<close>
  with the defaults of \<open>updateStatus\<close>; an argument that is \<open>None\<close> was left out by
  the caller.
\<close>

definition statusRecord ::
  "string \<Rightarrow> int option \<Rightarrow> int option \<Rightarrow> string option \<Rightarrow> video list option \<Rightarrow> js_object" where
  "statusRecord st processed tot msg plan =
     [(''state'', JString st),
      (''processed'', JNumber (case processed of None \<Rightarrow> 0 | Some p \<Rightarrow> p)),
      (''total'', JNumber (case tot of None \<Rightarrow> 0 | Some t \<Rightarrow> t)),
      (''message'', JString (case msg of None \<Rightarrow> [] | Some m \<Rightarrow> m)),
      (''plan'', JPlan (case plan of None \<Rightarrow> [] | Some p \<Rightarrow> p)),
      (''timestamp'', JTimestamp)]"

text \<open>The object written when the script loads: \<^verbatim>\<open>{ state: 'idle' }\<close>.\<close>

definition initialStatus :: js_object where
  "initialStatus = [(''state'', JString ''idle'')]"

section \<open>The content script and the page\<close>

text \<open>
  A rendered playlist entry is known to the script by the trimmed text of its
  \<open>#video-title\<close> element; \<open>None\<close> is an entry without that element.
\<close>

type_synonym entry = "string option"

text \<open>
  The observable actions, kept in a log: a click on the page's "Move to top" menu
  item for an entry, and the arrival of a \<open>cancelReorder\<close> message.
\<close>

datatype event = MoveToTop entry | CancelRequest

text \<open>
  The module variables of \<^verbatim>\<open>content.js\<close>, the extension storage, the rendered
  playlist and the log.
\<close>

record world =
  isReordering :: bool
  isCancelled :: bool
  reorderPlan :: "video list"
  storage :: local_storage
  playlist :: "entry list"
  events :: "event list"

text \<open>
  Loading the script: the three variables get their initial values and the status is
  set to idle, whatever the storage held.
\<close>

definition loadScript :: "local_storage \<Rightarrow> entry list \<Rightarrow> world" where
  "loadScript persisted entries =
     \<lparr>isReordering = False, isCancelled = False, reorderPlan = [],
      storage = storageSet ''reorder_status'' initialStatus persisted,
      playlist = entries, events = []\<rparr>"

definition updateStatus ::
  "string \<Rightarrow> int option \<Rightarrow> int option \<Rightarrow> string option \<Rightarrow> video list option \<Rightarrow> world \<Rightarrow> world" where
  "updateStatus st processed tot msg plan w =
     w\<lparr>storage := storageSet ''reorder_status'' (statusRecord st processed tot msg plan) (storage w)\<rparr>"

subsection \<open>Scrolling until the page stops growing\<close>

text \<open>
  \<open>scrollToBottom\<close> of \<^verbatim>\<open>content.js\<close> scrolls and reads the document height
  once a second.  \<open>heightAt k\<close> is the height read by check number \<open>k\<close> (from 0);
  the failsafe timer ends the phase after \<open>ticks\<close> checks (30 s at one check a
  second).  The result says how the phase ended and after how many checks.
\<close>

datatype scroll_end = NoContainer | Stable nat | TimedOut nat

fun scrollChecks :: "(nat \<Rightarrow> int) \<Rightarrow> nat \<Rightarrow> nat \<Rightarrow> int \<Rightarrow> nat \<Rightarrow> scroll_end" where
  "scrollChecks heightAt 0 k lastHeight consecutiveStops = TimedOut k"
| "scrollChecks heightAt (Suc ticks) k lastHeight consecutiveStops =
     (let currentHeight = heightAt k in
      if currentHeight = lastHeight then
        (if consecutiveStops + 1 \<ge> 3 then Stable (k + 1)
         else scrollChecks heightAt ticks (k + 1) lastHeight (consecutiveStops + 1))
      else scrollChecks heightAt ticks (k + 1) currentHeight 0)"

text \<open>
  The page as the scroller and the scraper meet it: whether the playlist container
  exists, the heights the checks read, the number of checks before the failsafe fires,
  and the video list the page renders after a given number of checks.
\<close>

record page =
  hasContainer :: bool
  heights :: "nat \<Rightarrow> int"
  failsafeTicks :: nat
  rendered :: "nat \<Rightarrow> video list"

definition scrollToBottom :: "page \<Rightarrow> scroll_end" where
  "scrollToBottom pg =
     (if \<not> hasContainer pg then NoContainer
      else scrollChecks (heights pg) (failsafeTicks pg) 0 0 0)"

fun checksDone :: "scroll_end \<Rightarrow> nat" where
  "checksDone NoContainer = 0"
| "checksDone (Stable k) = k"
| "checksDone (TimedOut k) = k"

text \<open>
  \<^verbatim>\<open>content_script.js\<close>, \<open>loadAllVideos\<close>: the same phase by the number of
  entries.  \<open>countAt k\<close> is the number of children of the container read after
  round \<open>k\<close> (from 0) of scrolling and waiting, \<open>initialCount\<close> the number before
  the first round.  There is no timer here: the result is the number of rounds, or
  \<open>None\<close> when the loop never ends.
\<close>

partial_function (option) loadAllVideosLoop ::
  "(nat \<Rightarrow> nat) \<Rightarrow> nat \<Rightarrow> nat \<Rightarrow> nat \<Rightarrow> nat \<Rightarrow> nat option" where
  "loadAllVideosLoop countAt k lastVideoCount currentVideoCount retries =
     (if lastVideoCount < currentVideoCount \<or> retries < 5 then
        loadAllVideosLoop countAt (k + 1) currentVideoCount (countAt k)
          (if currentVideoCount = countAt k then retries + 1 else 0)
      else Some k)"

declare loadAllVideosLoop.simps [code]

definition loadAllVideos :: "bool \<Rightarrow> nat \<Rightarrow> (nat \<Rightarrow> nat) \<Rightarrow> nat option" where
  "loadAllVideos containerFound initialCount countAt =
     (if \<not> containerFound then Some 0 else loadAllVideosLoop countAt 0 0 initialCount 0)"

subsection \<open>Planning\<close>

text \<open>
  \<open>Array.prototype.sort\<close> with a comparator: a stable sort; \<open>cmp a b \<le> 0\<close> keeps
  \<open>a\<close> in front of \<open>b\<close>.
\<close>

fun insertBy :: "('a \<Rightarrow> 'a \<Rightarrow> int) \<Rightarrow> 'a \<Rightarrow> 'a list \<Rightarrow> 'a list" where
  "insertBy cmp x [] = [x]"
| "insertBy cmp x (y # ys) = (if cmp x y \<le> 0 then x # y # ys else y # insertBy cmp x ys)"

definition sortBy :: "('a \<Rightarrow> 'a \<Rightarrow> int) \<Rightarrow> 'a list \<Rightarrow> 'a list" where
  "sortBy cmp xs = foldr (insertBy cmp) xs []"

text \<open>
  \<open>generateReorderPlan\<close> from the scraped list on: the filter, the two
  \<open>throw\<close>s and the sort.
\<close>

definition planVideos :: "string \<Rightarrow> int \<Rightarrow> video list \<Rightarrow> string + video list" where
  "planVideos order maxLength scraped =
     (if length scraped = 0 then Inl ''No videos found. Are you on a playlist page?''
      else
        let videoData =
              (if maxLength > 0 then filter (\<lambda>v. duration v \<le> maxLength) scraped else scraped)
        in if length videoData = 0 then Inl ''No videos match the specified criteria.''
           else Inr (sortBy (\<lambda>a b. if order = ''asc'' then duration a - duration b
                                    else duration b - duration a) videoData))"

text \<open>
  The whole of \<open>generateReorderPlan\<close>, run without a message handled in between.
  The list is read from the page only after the scrolling phase: \<open>rendered pg k\<close> is
  what the page shows after \<open>k\<close> checks.
\<close>

definition generateReorderPlan :: "string \<Rightarrow> int \<Rightarrow> page \<Rightarrow> world \<Rightarrow> world" where
  "generateReorderPlan order maxLength pg w =
     (if isReordering w then w
      else
        let w1 = updateStatus ''gathering'' (Some 0) (Some 0)
                   (Some ''Scrolling to load all videos...'') None (w\<lparr>isReordering := True\<rparr>);
            scrolled = scrollToBottom pg;
            w2 = updateStatus ''gathering'' (Some 0) (Some 0) (Some ''Gathering video data...'') None w1
        in case planVideos order maxLength (rendered pg (checksDone scrolled)) of
             Inl errorMessage \<Rightarrow> updateStatus ''error'' (Some 0) (Some 0) (Some errorMessage) None w2
           | Inr videoData \<Rightarrow>
               updateStatus ''preview'' (Some 0) (Some (int (length videoData))) (Some [])
                 (Some videoData) (w2\<lparr>reorderPlan := videoData\<rparr>))"

subsection \<open>Verifying\<close>

definition titleOrUntitled :: "entry \<Rightarrow> string" where
  "titleOrUntitled el = (case el of None \<Rightarrow> ''Untitled'' | Some t \<Rightarrow> t)"

definition mismatchMsg :: "nat \<Rightarrow> string \<Rightarrow> string \<Rightarrow> string" where
  "mismatchMsg i expected found =
     ''Mismatch at position '' @ toString (i + 1) @ ''. Expected: '' @ [CHR 0x22] @ expected
       @ [CHR 0x22] @ '', but found: '' @ [CHR 0x22] @ found @ [CHR 0x22]"

definition notAllFoundMsg :: string where
  "notAllFoundMsg = ''Verification failed: Not all videos were found on the page after reordering.''"

text \<open>What \<open>verifyOrder\<close> returns: \<open>true\<close>, or the error message.\<close>

datatype verdict = Verified | Failed string

text \<open>
  The comparison loop of \<open>verifyOrder\<close>.  An index past the end of
  \<open>currentOrderTitles\<close> reads \<open>undefined\<close>, which differs from every title.
\<close>

function compareOrder :: "nat \<Rightarrow> string list \<Rightarrow> video list \<Rightarrow> verdict" where
  "compareOrder i currentOrderTitles plan =
     (if i < length plan then
        (if i \<ge> length currentOrderTitles then
           Failed (mismatchMsg i (title (plan ! i)) ''undefined'')
         else if currentOrderTitles ! i \<noteq> title (plan ! i) then
           Failed (mismatchMsg i (title (plan ! i)) (currentOrderTitles ! i))
         else compareOrder (i + 1) currentOrderTitles plan)
      else Verified)"
  by pat_completeness auto
termination
  by (relation "measure (\<lambda>(i, c, plan). length plan - i)") auto

declare compareOrder.simps [simp del]

text \<open>
  \<open>verifyOrder\<close>: the status write (\<open>processed\<close> is the stored count when that is a
  non-zero number, the plan length otherwise), then the length check and the comparison.
\<close>

definition verifyOrder :: "world \<Rightarrow> verdict \<times> world" where
  "verifyOrder w =
     (let planLength = int (length (reorderPlan w));
          currentProcessed =
            (case statusField ''processed'' (storage w) of
               Some (JNumber p) \<Rightarrow> if p \<noteq> 0 then p else planLength
             | _ \<Rightarrow> planLength);
          w1 = updateStatus ''reordering'' (Some currentProcessed) (Some planLength)
                 (Some ''Verifying final order...'') None w;
          videoElements = playlist w1
      in if length videoElements < length (reorderPlan w1) then (Failed notAllFoundMsg, w1)
         else
           let currentOrderTitles =
                 map titleOrUntitled (take (length (reorderPlan w1)) videoElements)
           in (compareOrder 0 currentOrderTitles (reorderPlan w1), w1))"

subsection \<open>Messages from the popup\<close>

datatype request = GeneratePlan string int | ExecuteReorder | CancelReorder | OtherAction

text \<open>The object passed to \<open>sendResponse\<close>: its status and, if present, its message.\<close>

datatype response = Response string "string option"

text \<open>The asynchronous function a handler starts without awaiting it.\<close>

datatype async_call = RunGeneratePlan string int | RunExecuteReorder

text \<open>
  The \<open>onMessage\<close> listener: the response sent (if any), the function started (if
  any) and the variables and storage as the handler itself leaves them.  What a started
  function does, its first statements included, is the effect of \<open>generateReorderPlan\<close>
  or \<open>executeReorder\<close> on the world the handler leaves.
\<close>

definition onMessage ::
  "request \<Rightarrow> world \<Rightarrow> response option \<times> async_call option \<times> world" where
  "onMessage req w =
     (case req of
        GeneratePlan order maxLength \<Rightarrow>
          if isReordering w then
            (Some (Response ''error'' (Some ''An operation is already in progress.'')), None, w)
          else (Some (Response ''started'' None), Some (RunGeneratePlan order maxLength), w)
      | ExecuteReorder \<Rightarrow> (Some (Response ''executing'' None), Some RunExecuteReorder, w)
      | CancelReorder \<Rightarrow>
          if isReordering w then
            (Some (Response ''cancelling'' None), None,
             updateStatus ''idle'' None None None None
               (w\<lparr>isCancelled := True, isReordering := False, reorderPlan := []\<rparr>))
          else (None, None, w)
      | OtherAction \<Rightarrow> (None, None, w))"

subsection \<open>Executing\<close>

text \<open>\<open>findVideoElementByTitle\<close>: the first entry that has a title element with that text.\<close>

definition findVideoElementByTitle :: "string \<Rightarrow> entry list \<Rightarrow> entry option" where
  "findVideoElementByTitle t els =
     find (\<lambda>el. case el of None \<Rightarrow> False | Some txt \<Rightarrow> txt = t) els"

text \<open>
  The places where \<open>executeReorder\<close> is suspended in an \<open>await\<close> and a message can be
  handled: before the loop, and in the iteration with index \<open>i\<close> while scrolling for a
  missing entry, between opening the menu and clicking its item, while waiting for the
  move, after the progress write, and after the idle write of a cancelled loop.
  A schedule says at which of them a \<open>cancelReorder\<close> message arrives.
\<close>

datatype await_point = BeforeLoop | Search nat | Menu nat | Wait nat | Progress nat | Break nat

type_synonym schedule = "await_point \<Rightarrow> bool"

definition never :: schedule where
  "never p = False"

definition deliver :: "bool \<Rightarrow> world \<Rightarrow> world" where
  "deliver arrives w =
     (if arrives then snd (snd (onMessage CancelReorder (w\<lparr>events := events w @ [CancelRequest]\<rparr>)))
      else w)"

text \<open>
  The page's own "Move to top": the entry becomes the first of the list.  The menu is
  taken to offer the item, so \<open>clickMenuOption\<close> does not throw.
\<close>

definition moveToTop :: "entry \<Rightarrow> world \<Rightarrow> world" where
  "moveToTop el w =
     w\<lparr>playlist := el # remove1 el (playlist w), events := events w @ [MoveToTop el]\<rparr>"

text \<open>
  The second half of an iteration: \<open>clickMenuOption\<close>, \<open>waitForMove\<close> and the
  progress write, which reads \<open>reorderPlan.length\<close> anew.
\<close>

definition moveAndReport :: "schedule \<Rightarrow> nat \<Rightarrow> nat \<Rightarrow> entry \<Rightarrow> world \<Rightarrow> world" where
  "moveAndReport sched totalVideos i videoElement w =
     (let w1 = deliver (sched (Menu i)) w;
          w2 = moveToTop videoElement w1;
          w3 = deliver (sched (Wait i)) w2;
          w4 = updateStatus ''reordering'' (Some (int (length (reorderPlan w3)) - int i))
                 (Some (int totalVideos)) None None w3
      in deliver (sched (Progress i)) w4)"

definition searchingMsg :: "string \<Rightarrow> string" where
  "searchingMsg t = ''Searching for '' @ [CHR 0x22] @ t @ [CHR 0x22] @ ''...''"

definition notFoundMsg :: "string \<Rightarrow> string" where
  "notFoundMsg t =
     ''Could not find video '' @ [CHR 0x22] @ t @ [CHR 0x22]
       @ '' after scrolling to the bottom. The playlist may have changed.''"

text \<open>
  The body of the \<open>for\<close> loop of \<open>executeReorder\<close> after its cancellation
  check, for index \<open>i\<close>.  \<open>scroll\<close> is what the rendered list becomes when
  \<open>scrollToBottom\<close> is run for a missing entry.  A thrown error comes back as
  \<open>Inl\<close> with its message and the world at that moment; reading \<open>reorderPlan[i]\<close>
  past the end gives \<open>undefined\<close>, whose \<open>.title\<close> is a \<open>TypeError\<close>.
\<close>

definition iteration ::
  "(entry list \<Rightarrow> entry list) \<Rightarrow> schedule \<Rightarrow> nat \<Rightarrow> nat \<Rightarrow> world \<Rightarrow> (string \<times> world) + world" where
  "iteration scroll sched totalVideos i w =
     (if length (reorderPlan w) \<le> i then Inl (''TypeError'', w)
      else
        let videoInfo = reorderPlan w ! i in
        case findVideoElementByTitle (title videoInfo) (playlist w) of
          Some videoElement \<Rightarrow> Inr (moveAndReport sched totalVideos i videoElement w)
        | None \<Rightarrow>
            let w1 = updateStatus ''reordering''
                       (Some (int (length (reorderPlan w)) - 1 - int i)) (Some (int totalVideos))
                       (Some (searchingMsg (title videoInfo))) None w;
                w2 = deliver (sched (Search i)) w1;
                w3 = w2\<lparr>playlist := scroll (playlist w2)\<rparr>
            in case findVideoElementByTitle (title videoInfo) (playlist w3) of
                 None \<Rightarrow> Inl (notFoundMsg (title videoInfo), w3)
               | Some videoElement \<Rightarrow> Inr (moveAndReport sched totalVideos i videoElement w3))"

text \<open>
  The loop, \<open>i\<close> running down from the fourth argument minus one to 0:
  \<^verbatim>\<open>for (let i = reorderPlan.length - 1; i >= 0; i--)\<close>, with the check of
  \<open>isCancelled\<close> at the head of each round.
\<close>

fun reorderLoop ::
  "(entry list \<Rightarrow> entry list) \<Rightarrow> schedule \<Rightarrow> nat \<Rightarrow> nat \<Rightarrow> world \<Rightarrow> (string \<times> world) + world" where
  "reorderLoop scroll sched totalVideos 0 w = Inr w"
| "reorderLoop scroll sched totalVideos (Suc i) w =
     (if isCancelled w then
        Inr (deliver (sched (Break i)) (updateStatus ''idle'' None None None None w))
      else
        case iteration scroll sched totalVideos i w of
          Inl thrown \<Rightarrow> Inl thrown
        | Inr w' \<Rightarrow> reorderLoop scroll sched totalVideos i w')"

text \<open>
  \<open>executeReorder\<close> as a whole: the early return on an empty plan, the first status
  write, the check for the playlist container (\<open>containerFound\<close>), the loop, the
  return after a cancelled loop, the verification, the \<open>catch\<close> and the
  \<open>finally\<close>.  Requests that arrive while \<open>verifyOrder\<close> runs are not part of
  the schedule.
\<close>

definition executeReorder ::
  "bool \<Rightarrow> (entry list \<Rightarrow> entry list) \<Rightarrow> schedule \<Rightarrow> world \<Rightarrow> world" where
  "executeReorder containerFound scroll sched w =
     (if length (reorderPlan w) = 0 then w\<lparr>isReordering := False\<rparr>
      else
        let w0 = w\<lparr>isReordering := True\<rparr>;
            totalVideos = length (reorderPlan w0);
            w1 = deliver (sched BeforeLoop)
                   (updateStatus ''reordering'' (Some 0) (Some (int totalVideos)) None None w0);
            outcome =
              (if \<not> containerFound then Inl (''Could not find playlist container.'', w1)
               else
                 case reorderLoop scroll sched totalVideos (length (reorderPlan w1)) w1 of
                   Inl thrown \<Rightarrow> Inl thrown
                 | Inr w2 \<Rightarrow>
                     if isCancelled w2 then Inr w2
                     else
                       (case verifyOrder w2 of
                          (Verified, w3) \<Rightarrow>
                            Inr (updateStatus ''complete'' (Some (int totalVideos))
                                   (Some (int totalVideos)) None None w3)
                        | (Failed verificationResult, w3) \<Rightarrow> Inl (verificationResult, w3)));
            w4 = (case outcome of
                    Inl (errorMessage, w') \<Rightarrow>
                      updateStatus ''error'' (Some 0) (Some 0) (Some errorMessage) None w'
                  | Inr w' \<Rightarrow> w')
        in w4\<lparr>reorderPlan := [], isReordering := False, isCancelled := False\<rparr>)"

text \<open>The timer set in the \<open>finally\<close> block, when it fires five seconds later.\<close>

definition resetAfterComplete :: "world \<Rightarrow> world" where
  "resetAfterComplete w =
     (if statusField ''state'' (storage w) = Some (JString ''complete'')
      then updateStatus ''idle'' None None None None w else w)"

subsection \<open>Reading the outcome and the log\<close>

text \<open>The world in which the loop is left, by its end, by \<open>break\<close> or by a throw.\<close>

fun finalWorld :: "(string \<times> world) + world \<Rightarrow> world" where
  "finalWorld (Inr w) = w"
| "finalWorld (Inl (msg, w)) = w"

text \<open>The number of "Move to top" clicks logged after the first cancel request.\<close>

definition movesAfterCancel :: "event list \<Rightarrow> nat" where
  "movesAfterCancel evs =
     length (filter (\<lambda>e. e \<noteq> CancelRequest) (dropWhile (\<lambda>e. e \<noteq> CancelRequest) evs))"

section \<open>The earlier script, content_script.js\<close>

text \<open>
  \<^verbatim>\<open>content_script.js\<close> plans and moves in one function, \<open>reorderPlaylist\<close>, on
  the objects of \<open>getVideoData\<close>.  Their durations come from \<open>parseTime\<close> and are
  \<open>Infinity\<close> for an entry without a time label, so they are of type \<open>number\<close>.
\<close>

fun n_neg :: "number \<Rightarrow> number" where
  "n_neg (Num a) = Num (- a)"
| "n_neg PosInf = NegInf"
| "n_neg NegInf = PosInf"
| "n_neg NaN = NaN"

definition n_sub :: "number \<Rightarrow> number \<Rightarrow> number" where
  "n_sub a b = n_add a (n_neg b)"

text \<open>\<open>a <= b\<close>; every comparison with \<open>NaN\<close> is false.\<close>

fun n_le :: "number \<Rightarrow> number \<Rightarrow> bool" where
  "n_le NaN _ = False"
| "n_le _ NaN = False"
| "n_le NegInf _ = True"
| "n_le _ PosInf = True"
| "n_le PosInf _ = False"
| "n_le _ NegInf = False"
| "n_le (Num a) (Num b) = (a \<le> b)"

record listed =
  listedTitle :: string
  listedDuration :: number
  originalIndex :: nat

text \<open>
  \<open>getVideoData\<close>, on the entries given by the text of their title element and of
  their time label, each possibly missing.
\<close>

definition getVideoData :: "(string option \<times> string option) list \<Rightarrow> listed list" where
  "getVideoData videoElements =
     map (\<lambda>(index, (titleEl, timeEl)).
            \<lparr>listedTitle = (case titleEl of None \<Rightarrow> ''Unknown Title'' | Some t \<Rightarrow> t),
             listedDuration = (case timeEl of None \<Rightarrow> PosInf | Some t \<Rightarrow> parseTime t),
             originalIndex = index\<rparr>)
       (enumerate 0 videoElements)"

text \<open>\<^verbatim>\<open>allVideos.filter(v => v.duration <= maxDurationSeconds)\<close>\<close>

definition videosToReorder :: "number \<Rightarrow> listed list \<Rightarrow> listed list" where
  "videosToReorder maxDurationMinutes allVideos =
     (let maxDurationSeconds = n_mul maxDurationMinutes (Num 60)
      in filter (\<lambda>v. n_le (listedDuration v) maxDurationSeconds) allVideos)"

text \<open>
  The previewed order.  A comparator result that is \<open>NaN\<close> counts as 0 in
  \<open>sort\<close>, which \<open>n_sign\<close> does.
\<close>

definition finalOrderVideos :: "string \<Rightarrow> listed list \<Rightarrow> listed list" where
  "finalOrderVideos sortOrder vs =
     sortBy (\<lambda>a b. n_sign (if sortOrder = ''asc''
                             then n_sub (listedDuration a) (listedDuration b)
                             else n_sub (listedDuration b) (listedDuration a))) vs"

text \<open>The order of the moves: the same list sorted anew with the comparator turned round.\<close>

definition moveOrder :: "string \<Rightarrow> listed list \<Rightarrow> listed list" where
  "moveOrder sortOrder vs =
     (let reverseSort = (sortOrder = ''asc'')
      in sortBy (\<lambda>a b. n_sign (if reverseSort
                                then n_sub (listedDuration b) (listedDuration a)
                                else n_sub (listedDuration a) (listedDuration b))) vs)"

text \<open>
  The loop of \<open>reorderPlaylist\<close> on the rendered list, in a run where every menu
  has its \<open>Move to top\<close> item and a second scan renders the same entries: an entry
  that is found by its title goes to the top, one that is not found is skipped.
\<close>

fun moveEach :: "listed list \<Rightarrow> entry list \<Rightarrow> entry list" where
  "moveEach [] els = els"
| "moveEach (videoInfo # rest) els =
     (case findVideoElementByTitle (listedTitle videoInfo) els of
        None \<Rightarrow> moveEach rest els
      | Some videoElement \<Rightarrow> moveEach rest (videoElement # remove1 videoElement els))"

section \<open>Durations: the two parsers and the formatter\<close>




















section \<open>The status store\<close>

lemma storageGet_storageSet:
  "storageGet k (storageSet k' v st) = (if k = k' then Some v else storageGet k st)"
  by (simp add: storageGet_def storageSet_def update_conv')

lemma statusField_updateStatus:
  "statusField f (storage (updateStatus st p t m pl w)) = map_of (statusRecord st p t m pl) f"
  by (simp add: statusField_def updateStatus_def storageGet_storageSet)

lemma updateStatus_keeps [simp]:
  "isReordering (updateStatus st p t m pl w) = isReordering w"
  "isCancelled (updateStatus st p t m pl w) = isCancelled w"
  "reorderPlan (updateStatus st p t m pl w) = reorderPlan w"
  "playlist (updateStatus st p t m pl w) = playlist w"
  "events (updateStatus st p t m pl w) = events w"
  by (simp_all add: updateStatus_def)

text \<open>
  C6.  When the script loads, the object under \<open>reorder_status\<close> is
  \<^verbatim>\<open>{ state: 'idle' }\<close>, whatever the storage held before.
\<close>

theorem loadScript_resets_status:
  "storageGet ''reorder_status'' (storage (loadScript persisted entries)) = Some [(''state'', JString ''idle'')]"
  by (simp add: loadScript_def storageGet_storageSet initialStatus_def)

text \<open>
  C7, as it holds.  A write through \<open>updateStatus\<close> changes the key
  \<open>reorder_status\<close> and no other, and the object it stores has a state, the two
  counters, a message and a plan.
\<close>

theorem updateStatus_record:
  "\<exists>obj. map_of (storage (updateStatus st p t m pl w)) = (map_of (storage w))(''reorder_status'' \<mapsto> obj)
     \<and> map_of obj ''state'' = Some (JString st)
     \<and> (\<exists>n. map_of obj ''processed'' = Some (JNumber n))
     \<and> (\<exists>n. map_of obj ''total'' = Some (JNumber n))
     \<and> (\<exists>txt. map_of obj ''message'' = Some (JString txt))
     \<and> (\<exists>vs. map_of obj ''plan'' = Some (JPlan vs))"
  by (rule exI [of _ "statusRecord st p t m pl"])
    (simp add: updateStatus_def storageSet_def update_conv' statusRecord_def)

text \<open>
  C7, as stated, fails for the write made at load time: that object has a state and
  none of the other four fields.
\<close>

theorem initial_status_lacks_fields:
  "statusField ''state'' (storage (loadScript [] [])) = Some (JString ''idle'') \<and>
   statusField ''processed'' (storage (loadScript [] [])) = None \<and>
   statusField ''total'' (storage (loadScript [] [])) = None \<and>
   statusField ''message'' (storage (loadScript [] [])) = None \<and>
   statusField ''plan'' (storage (loadScript [] [])) = None"
  by (simp add: loadScript_def statusField_def storageGet_storageSet initialStatus_def)

section \<open>The message interface\<close>



section \<open>The planner\<close>










section \<open>The verifier\<close>

lemma compareOrder_Verified:
  "length plan \<le> length cur \<Longrightarrow>
   (compareOrder i cur plan = Verified) = (\<forall>k. i \<le> k \<and> k < length plan \<longrightarrow> cur ! k = title (plan ! k))"
proof (induction i cur plan rule: compareOrder.induct)
  case (1 i cur plan)
  show ?case
  proof (cases "i < length plan")
    case False
    then show ?thesis by (subst compareOrder.simps) auto
  next
    case True
    show ?thesis
    proof (cases "cur ! i = title (plan ! i)")
      case False
      with True 1(2) show ?thesis by (subst compareOrder.simps) auto
    next
      case eq: True
      have "compareOrder i cur plan = compareOrder (i + 1) cur plan"
        using True eq 1(2) by (subst compareOrder.simps) simp
      also have "(\<dots> = Verified) = (\<forall>k. i + 1 \<le> k \<and> k < length plan \<longrightarrow> cur ! k = title (plan ! k))"
        using 1(1) True eq 1(2) by simp
      also have "\<dots> = (\<forall>k. i \<le> k \<and> k < length plan \<longrightarrow> cur ! k = title (plan ! k))"
        using eq by (metis Suc_eq_plus1 Suc_leI le_neq_implies_less nat_le_linear not_less_eq_eq)
      finally show ?thesis .
    qed
  qed
qed

lemma compareOrder_Failed:
  "length plan \<le> length cur \<Longrightarrow> compareOrder i cur plan \<noteq> Verified \<Longrightarrow>
   \<exists>j. i \<le> j \<and> j < length plan \<and> cur ! j \<noteq> title (plan ! j) \<and>
       (\<forall>k. i \<le> k \<and> k < j \<longrightarrow> cur ! k = title (plan ! k)) \<and>
       compareOrder i cur plan = Failed (mismatchMsg j (title (plan ! j)) (cur ! j))"
proof (induction i cur plan rule: compareOrder.induct)
  case (1 i cur plan)
  have lt: "i < length plan"
    using 1(3) by (subst (asm) compareOrder.simps) (simp split: if_splits)
  show ?case
  proof (cases "cur ! i = title (plan ! i)")
    case False
    with lt 1(2) have "compareOrder i cur plan = Failed (mismatchMsg i (title (plan ! i)) (cur ! i))"
      by (subst compareOrder.simps) simp
    with False lt show ?thesis by (intro exI [of _ i]) auto
  next
    case eq: True
    have step: "compareOrder i cur plan = compareOrder (i + 1) cur plan"
      using lt eq 1(2) by (subst compareOrder.simps) simp
    with 1(3) have "compareOrder (i + 1) cur plan \<noteq> Verified" by simp
    with 1(1) lt eq 1(2) obtain j where j: "i + 1 \<le> j" "j < length plan"
      "cur ! j \<noteq> title (plan ! j)"
      "\<forall>k. i + 1 \<le> k \<and> k < j \<longrightarrow> cur ! k = title (plan ! k)"
      "compareOrder (i + 1) cur plan = Failed (mismatchMsg j (title (plan ! j)) (cur ! j))"
      by auto
    have "\<forall>k. i \<le> k \<and> k < j \<longrightarrow> cur ! k = title (plan ! k)"
    proof (intro allI impI)
      fix k assume "i \<le> k \<and> k < j"
      then show "cur ! k = title (plan ! k)"
        using eq j(4) by (cases "k = i") auto
    qed
    with j step show ?thesis by (intro exI [of _ j]) simp
  qed
qed

text \<open>
  C3.  With fewer entries on the page than in the plan, the verifier returns the
  "not all videos were found" message.  Otherwise it returns \<open>true\<close> exactly when
  the first live titles equal the planned titles index by index, and when they do not,
  its message names position \<open>j + 1\<close> for the least index \<open>j\<close> at which they
  differ, with the expected and the found title.
\<close>

theorem verifyOrder_result:
  "(length (playlist w) < length (reorderPlan w) \<longrightarrow> fst (verifyOrder w) = Failed notAllFoundMsg) \<and>
   (length (reorderPlan w) \<le> length (playlist w) \<longrightarrow>
      ((fst (verifyOrder w) = Verified) =
         (\<forall>i < length (reorderPlan w).
            titleOrUntitled (playlist w ! i) = title (reorderPlan w ! i))) \<and>
      (fst (verifyOrder w) \<noteq> Verified \<longrightarrow>
         (\<exists>j < length (reorderPlan w).
            titleOrUntitled (playlist w ! j) \<noteq> title (reorderPlan w ! j) \<and>
            (\<forall>i < j. titleOrUntitled (playlist w ! i) = title (reorderPlan w ! i)) \<and>
            fst (verifyOrder w) =
              Failed (''Mismatch at position '' @ toString (j + 1) @ ''. Expected: '' @ [CHR 0x22]
                @ title (reorderPlan w ! j) @ [CHR 0x22] @ '', but found: '' @ [CHR 0x22]
                @ titleOrUntitled (playlist w ! j) @ [CHR 0x22]))))"
proof -
  define plan where "plan = reorderPlan w"
  define els where "els = playlist w"
  define cur where "cur = map titleOrUntitled (take (length plan) els)"
  have short: "length els < length plan \<Longrightarrow> fst (verifyOrder w) = Failed notAllFoundMsg"
    by (simp add: verifyOrder_def Let_def updateStatus_def plan_def els_def)
  have long: "fst (verifyOrder w) = compareOrder 0 cur plan" if "length plan \<le> length els"
    using that by (simp add: verifyOrder_def Let_def updateStatus_def plan_def els_def cur_def)
  have len: "length plan \<le> length cur" if "length plan \<le> length els"
    using that by (simp add: cur_def)
  have nth: "cur ! k = titleOrUntitled (els ! k)" if "k < length plan" "length plan \<le> length els" for k
    using that by (simp add: cur_def)
  show ?thesis
  proof (intro conjI impI)
    assume "length (playlist w) < length (reorderPlan w)"
    then show "fst (verifyOrder w) = Failed notAllFoundMsg"
      using short by (simp add: plan_def els_def)
  next
    assume le: "length (reorderPlan w) \<le> length (playlist w)"
    then have le': "length plan \<le> length els" by (simp add: plan_def els_def)
    show "(fst (verifyOrder w) = Verified) =
         (\<forall>i < length (reorderPlan w).
            titleOrUntitled (playlist w ! i) = title (reorderPlan w ! i))"
      using compareOrder_Verified [OF len [OF le'], of 0] long [OF le'] nth le'
      by (auto simp: plan_def els_def)
  next
    assume le: "length (reorderPlan w) \<le> length (playlist w)"
      and nv: "fst (verifyOrder w) \<noteq> Verified"
    then have le': "length plan \<le> length els" by (simp add: plan_def els_def)
    from nv long [OF le'] have "compareOrder 0 cur plan \<noteq> Verified" by simp
    from compareOrder_Failed [OF len [OF le'] this]
    obtain j where j: "j < length plan" "cur ! j \<noteq> title (plan ! j)"
      "\<forall>k. 0 \<le> k \<and> k < j \<longrightarrow> cur ! k = title (plan ! k)"
      "compareOrder 0 cur plan = Failed (mismatchMsg j (title (plan ! j)) (cur ! j))"
      by auto
    show "\<exists>j < length (reorderPlan w).
            titleOrUntitled (playlist w ! j) \<noteq> title (reorderPlan w ! j) \<and>
            (\<forall>i < j. titleOrUntitled (playlist w ! i) = title (reorderPlan w ! i)) \<and>
            fst (verifyOrder w) =
              Failed (''Mismatch at position '' @ toString (j + 1) @ ''. Expected: '' @ [CHR 0x22]
                @ title (reorderPlan w ! j) @ [CHR 0x22] @ '', but found: '' @ [CHR 0x22]
                @ titleOrUntitled (playlist w ! j) @ [CHR 0x22])"
    proof (intro exI [of _ j] conjI allI impI)
      show "j < length (reorderPlan w)" using j(1) by (simp add: plan_def)
      show "titleOrUntitled (playlist w ! j) \<noteq> title (reorderPlan w ! j)"
        using j(1,2) nth [OF j(1) le'] by (simp add: plan_def els_def)
      show "titleOrUntitled (playlist w ! i) = title (reorderPlan w ! i)" if "i < j" for i
        using that j(1,3) nth [of i] le' by (simp add: plan_def els_def)
      show "fst (verifyOrder w) =
              Failed (''Mismatch at position '' @ toString (j + 1) @ ''. Expected: '' @ [CHR 0x22]
                @ title (reorderPlan w ! j) @ [CHR 0x22] @ '', but found: '' @ [CHR 0x22]
                @ titleOrUntitled (playlist w ! j) @ [CHR 0x22])"
        using long [OF le'] j(4) nth [OF j(1) le']
        by (simp add: mismatchMsg_def plan_def els_def)
    qed
  qed
qed

theorem verifyOrder_result_witness:
  "length (reorderPlan ((loadScript [] [Some ''A'', Some ''C'', Some ''B''])
       \<lparr>reorderPlan := [\<lparr>duration = 1, title = ''A''\<rparr>, \<lparr>duration = 2, title = ''B''\<rparr>,
                        \<lparr>duration = 3, title = ''C''\<rparr>]\<rparr>))
     \<le> length (playlist ((loadScript [] [Some ''A'', Some ''C'', Some ''B''])
       \<lparr>reorderPlan := [\<lparr>duration = 1, title = ''A''\<rparr>, \<lparr>duration = 2, title = ''B''\<rparr>,
                        \<lparr>duration = 3, title = ''C''\<rparr>]\<rparr>)) \<and>
   fst (verifyOrder ((loadScript [] [Some ''A'', Some ''C'', Some ''B''])
       \<lparr>reorderPlan := [\<lparr>duration = 1, title = ''A''\<rparr>, \<lparr>duration = 2, title = ''B''\<rparr>,
                        \<lparr>duration = 3, title = ''C''\<rparr>]\<rparr>)) =
     Failed (mismatchMsg 1 ''B'' ''C'') \<and>
   fst (verifyOrder ((loadScript [] [Some ''A'', Some ''B'', Some ''C''])
       \<lparr>reorderPlan := [\<lparr>duration = 1, title = ''A''\<rparr>, \<lparr>duration = 2, title = ''B''\<rparr>,
                        \<lparr>duration = 3, title = ''C''\<rparr>]\<rparr>)) = Verified \<and>
   length (playlist ((loadScript [] [Some ''A'', Some ''B''])
       \<lparr>reorderPlan := [\<lparr>duration = 1, title = ''A''\<rparr>, \<lparr>duration = 2, title = ''B''\<rparr>,
                        \<lparr>duration = 3, title = ''C''\<rparr>]\<rparr>))
     < length (reorderPlan ((loadScript [] [Some ''A'', Some ''B''])
       \<lparr>reorderPlan := [\<lparr>duration = 1, title = ''A''\<rparr>, \<lparr>duration = 2, title = ''B''\<rparr>,
                        \<lparr>duration = 3, title = ''C''\<rparr>]\<rparr>)) \<and>
   fst (verifyOrder ((loadScript [] [Some ''A'', Some ''B''])
       \<lparr>reorderPlan := [\<lparr>duration = 1, title = ''A''\<rparr>, \<lparr>duration = 2, title = ''B''\<rparr>,
                        \<lparr>duration = 3, title = ''C''\<rparr>]\<rparr>)) = Failed notAllFoundMsg"
proof -
  let ?plan = "[\<lparr>duration = 1, title = ''A''\<rparr>, \<lparr>duration = 2, title = ''B''\<rparr>,
                \<lparr>duration = 3, title = ''C''\<rparr>]"
  let ?bad = "(loadScript [] [Some ''A'', Some ''C'', Some ''B''])\<lparr>reorderPlan := ?plan\<rparr>"
  let ?good = "(loadScript [] [Some ''A'', Some ''B'', Some ''C''])\<lparr>reorderPlan := ?plan\<rparr>"
  let ?short = "(loadScript [] [Some ''A'', Some ''B''])\<lparr>reorderPlan := ?plan\<rparr>"
  have pl [simp]: "\<And>es. playlist ((loadScript [] es)\<lparr>reorderPlan := ?plan\<rparr>) = es"
    "\<And>es. reorderPlan ((loadScript [] es)\<lparr>reorderPlan := ?plan\<rparr>) = ?plan"
    by (simp_all add: loadScript_def)
  have good: "fst (verifyOrder ?good) = Verified"
    using verifyOrder_result [of ?good] by (simp add: All_less_Suc titleOrUntitled_def)
  have short: "fst (verifyOrder ?short) = Failed notAllFoundMsg"
    using verifyOrder_result [of ?short] by simp
  have "fst (verifyOrder ?bad) \<noteq> Verified"
    using verifyOrder_result [of ?bad] by (simp add: All_less_Suc titleOrUntitled_def)
  with verifyOrder_result [of ?bad] have bad: "fst (verifyOrder ?bad) = Failed (mismatchMsg 1 ''B'' ''C'')"
    by (simp add: Ex_less_Suc All_less_Suc titleOrUntitled_def mismatchMsg_def)
  show ?thesis using good short bad by simp
qed

section \<open>The scrolling phase\<close>

lemma scrollChecks_TimedOut:
  "scrollChecks h n k lastH stops = TimedOut m \<Longrightarrow> m = k + n"
proof (induction n arbitrary: k lastH stops)
  case 0
  then show ?case by simp
next
  case (Suc n)
  show ?case
  proof (cases "h k = lastH")
    case False
    with Suc.prems have "scrollChecks h n (k + 1) (h k) 0 = TimedOut m" by (simp add: Let_def)
    from Suc.IH [OF this] show ?thesis by simp
  next
    case True
    with Suc.prems have "scrollChecks h n (k + 1) lastH (stops + 1) = TimedOut m"
      by (simp add: Let_def split: if_splits)
    from Suc.IH [OF this] show ?thesis by simp
  qed
qed

lemma scrollChecks_changing:
  "h k \<noteq> lastH \<Longrightarrow> \<forall>j. h (Suc j) \<noteq> h j \<Longrightarrow> scrollChecks h n k lastH stops = TimedOut (k + n)"
proof (induction n arbitrary: k lastH stops)
  case 0
  then show ?case by simp
next
  case (Suc n)
  from Suc.prems(2) have "h (Suc k) \<noteq> h k" by blast
  from Suc.IH [OF this Suc.prems(2), of 0] Suc.prems(1) show ?case by (simp add: Let_def)
qed

lemma scrollChecks_Stable:
  assumes "scrollChecks h n k lastH stops = Stable m"
    and "stops \<le> k" and "\<forall>j. k - stops \<le> j \<and> j < k \<longrightarrow> h j = lastH"
  shows "k < m \<and> m \<le> k + n \<and> 3 \<le> m + stops - k \<and> (\<forall>j. m - 3 \<le> j \<and> j < m \<longrightarrow> h j = h (m - 1))"
  using assms
proof (induction n arbitrary: k lastH stops)
  case 0
  then show ?case by simp
next
  case (Suc n)
  show ?case
  proof (cases "h k = lastH")
    case False
    with Suc.prems(1) have run: "scrollChecks h n (k + 1) (h k) 0 = Stable m" by (simp add: Let_def)
    have "k + 1 < m \<and> m \<le> k + 1 + n \<and> 3 \<le> m + 0 - (k + 1) \<and>
        (\<forall>j. m - 3 \<le> j \<and> j < m \<longrightarrow> h j = h (m - 1))"
      by (rule Suc.IH [OF run]) simp_all
    then have a: "k + 1 < m \<and> m \<le> k + 1 + n \<and> 3 \<le> m + 0 - (k + 1)"
      and b: "\<forall>j. m - 3 \<le> j \<and> j < m \<longrightarrow> h j = h (m - 1)" by blast+
    from a have "k < m \<and> m \<le> k + Suc n \<and> 3 \<le> m + stops - k" by arith
    with b show ?thesis by blast
  next
    case eq: True
    show ?thesis
    proof (cases "stops + 1 \<ge> 3")
      case True
      with eq Suc.prems(1) have m: "m = k + 1" by (simp add: Let_def)
      have "h j = h (m - 1)" if "m - 3 \<le> j \<and> j < m" for j
      proof (cases "j = k")
        case True
        then show ?thesis by (simp add: m)
      next
        case False
        with that m True Suc.prems(2) have "k - stops \<le> j \<and> j < k" by arith
        with Suc.prems(3) have "h j = lastH" by blast
        with eq show ?thesis by (simp add: m)
      qed
      then have "\<forall>j. m - 3 \<le> j \<and> j < m \<longrightarrow> h j = h (m - 1)" by blast
      moreover have "k < m \<and> m \<le> k + Suc n \<and> 3 \<le> m + stops - k" using m True by arith
      ultimately show ?thesis by blast
    next
      case False
      with eq Suc.prems(1) have run: "scrollChecks h n (k + 1) lastH (stops + 1) = Stable m"
        by (simp add: Let_def)
      have inv: "\<forall>j. k + 1 - (stops + 1) \<le> j \<and> j < k + 1 \<longrightarrow> h j = lastH"
      proof (intro allI impI)
        fix j assume "k + 1 - (stops + 1) \<le> j \<and> j < k + 1"
        then have "j = k \<or> (k - stops \<le> j \<and> j < k)" by arith
        then show "h j = lastH"
          using Suc.prems(3) eq by blast
      qed
      have "k + 1 < m \<and> m \<le> k + 1 + n \<and> 3 \<le> m + (stops + 1) - (k + 1) \<and>
        (\<forall>j. m - 3 \<le> j \<and> j < m \<longrightarrow> h j = h (m - 1))"
        using Suc.prems(2) by (intro Suc.IH [OF run _ inv]) simp
      then have a: "k + 1 < m \<and> m \<le> k + 1 + n \<and> 3 \<le> m + (stops + 1) - (k + 1)"
        and b: "\<forall>j. m - 3 \<le> j \<and> j < m \<longrightarrow> h j = h (m - 1)" by blast+
      from a have "k < m \<and> m \<le> k + Suc n \<and> 3 \<le> m + stops - k" by arith
      with b show ?thesis by blast
    qed
  qed
qed

lemma scrollChecks_not_NoContainer: "scrollChecks h n k l s \<noteq> NoContainer"
  by (induction n arbitrary: k l s) (simp_all add: Let_def)

lemma scrollToBottom_NoContainer: "(scrollToBottom pg = NoContainer) = (\<not> hasContainer pg)"
  by (simp add: scrollToBottom_def scrollChecks_not_NoContainer)

lemma scrollToBottom_Stable:
  assumes st: "scrollToBottom pg = Stable k"
  shows "3 \<le> k \<and> k \<le> failsafeTicks pg \<and>
      heights pg (k - 3) = heights pg (k - 2) \<and> heights pg (k - 2) = heights pg (k - 1)"
proof -
  from st have run: "scrollChecks (heights pg) (failsafeTicks pg) 0 0 0 = Stable k"
    by (simp add: scrollToBottom_def split: if_splits)
  have "0 < k \<and> k \<le> 0 + failsafeTicks pg \<and> 3 \<le> k + 0 - 0 \<and>
     (\<forall>j. k - 3 \<le> j \<and> j < k \<longrightarrow> heights pg j = heights pg (k - 1))"
    by (rule scrollChecks_Stable [OF run]) simp_all
  then have a: "0 < k \<and> k \<le> 0 + failsafeTicks pg \<and> 3 \<le> k + 0 - 0"
    and b: "\<forall>j. k - 3 \<le> j \<and> j < k \<longrightarrow> heights pg j = heights pg (k - 1)" by blast+
  from a have k3: "3 \<le> k" and kt: "k \<le> failsafeTicks pg" by simp_all
  from k3 have "k - 3 \<le> k - 3 \<and> k - 3 < k" "k - 3 \<le> k - 2 \<and> k - 2 < k" by arith+
  with b have "heights pg (k - 3) = heights pg (k - 1)" "heights pg (k - 2) = heights pg (k - 1)"
    by blast+
  with k3 kt show ?thesis by simp
qed

lemma generateReorderPlan_reads_after_scrolling:
  assumes "\<not> isReordering w"
  shows "case planVideos order maxLength (rendered pg (checksDone (scrollToBottom pg))) of
         Inr plan \<Rightarrow> reorderPlan (generateReorderPlan order maxLength pg w) = plan
       | Inl msg \<Rightarrow>
           statusField ''message'' (storage (generateReorderPlan order maxLength pg w)) =
             Some (JString msg)"
  using assms
  by (simp add: generateReorderPlan_def Let_def statusField_updateStatus statusRecord_def
        split: sum.splits)

text \<open>
  C5, as it holds.  The scraper runs the scrolling phase before it reads the list: the
  plan is made from what the page renders after the checks of that phase.  The phase
  ends at once when the playlist container is missing; it ends before the failsafe only
  after three checks in a row that read the same page height; otherwise it ends when
  the failsafe fires, and that is how it ends when every check reads a new height.
\<close>

theorem scrollToBottom_ends:
  "((scrollToBottom pg = NoContainer) = (\<not> hasContainer pg)) \<and>
   (\<forall>k. scrollToBottom pg = Stable k \<longrightarrow>
      3 \<le> k \<and> k \<le> failsafeTicks pg \<and>
      heights pg (k - 3) = heights pg (k - 2) \<and> heights pg (k - 2) = heights pg (k - 1)) \<and>
   (\<forall>k. scrollToBottom pg = TimedOut k \<longrightarrow> k = failsafeTicks pg) \<and>
   (hasContainer pg \<and> heights pg 0 \<noteq> 0 \<and> (\<forall>j. heights pg (Suc j) \<noteq> heights pg j) \<longrightarrow>
      scrollToBottom pg = TimedOut (failsafeTicks pg)) \<and>
   (\<not> isReordering w \<longrightarrow>
      (case planVideos order maxLength (rendered pg (checksDone (scrollToBottom pg))) of
         Inr plan \<Rightarrow> reorderPlan (generateReorderPlan order maxLength pg w) = plan
       | Inl msg \<Rightarrow>
           statusField ''message'' (storage (generateReorderPlan order maxLength pg w)) =
             Some (JString msg)))"
proof -
  have timed: "k = failsafeTicks pg" if "scrollToBottom pg = TimedOut k" for k
  proof -
    from that have "scrollChecks (heights pg) (failsafeTicks pg) 0 0 0 = TimedOut k"
      by (simp add: scrollToBottom_def split: if_splits)
    from scrollChecks_TimedOut [OF this] show ?thesis by simp
  qed
  have growing: "scrollToBottom pg = TimedOut (failsafeTicks pg)"
    if "hasContainer pg \<and> heights pg 0 \<noteq> 0 \<and> (\<forall>j. heights pg (Suc j) \<noteq> heights pg j)"
    using that scrollChecks_changing [of "heights pg" 0 0 "failsafeTicks pg" 0]
    by (simp add: scrollToBottom_def)
  show ?thesis
    using scrollToBottom_NoContainer [of pg] scrollToBottom_Stable [of pg] timed growing
      generateReorderPlan_reads_after_scrolling [of w order maxLength pg]
    by blast
qed

theorem scrollToBottom_ends_witness:
  "scrollToBottom \<lparr>hasContainer = True, heights = (\<lambda>k. min (int k + 1) 5), failsafeTicks = 30,
       rendered = (\<lambda>k. [\<lparr>duration = 7, title = ''A''\<rparr>])\<rparr> = Stable 8 \<and>
   heights \<lparr>hasContainer = True, heights = (\<lambda>k. min (int k + 1) 5), failsafeTicks = 30,
       rendered = (\<lambda>k. [\<lparr>duration = 7, title = ''A''\<rparr>])\<rparr> (8 - 3) =
   heights \<lparr>hasContainer = True, heights = (\<lambda>k. min (int k + 1) 5), failsafeTicks = 30,
       rendered = (\<lambda>k. [\<lparr>duration = 7, title = ''A''\<rparr>])\<rparr> (8 - 2) \<and>
   \<not> isReordering (loadScript [] []) \<and>
   reorderPlan (generateReorderPlan ''asc'' 0
       \<lparr>hasContainer = True, heights = (\<lambda>k. min (int k + 1) 5), failsafeTicks = 30,
          rendered = (\<lambda>k. [\<lparr>duration = 7, title = ''A''\<rparr>])\<rparr> (loadScript [] [])) =
     [\<lparr>duration = 7, title = ''A''\<rparr>] \<and>
   hasContainer \<lparr>hasContainer = True, heights = (\<lambda>k. int k + 1), failsafeTicks = 30,
       rendered = (\<lambda>k. [])\<rparr> \<and>
   scrollToBottom \<lparr>hasContainer = True, heights = (\<lambda>k. int k + 1), failsafeTicks = 30,
       rendered = (\<lambda>k. [])\<rparr> = TimedOut 30"
proof -
  let ?pg = "\<lparr>hasContainer = True, heights = (\<lambda>k. min (int k + 1) 5), failsafeTicks = 30,
       rendered = (\<lambda>k. [\<lparr>duration = 7, title = ''A''\<rparr>])\<rparr>"
  let ?tall = "\<lparr>hasContainer = True, heights = (\<lambda>k. int k + 1), failsafeTicks = 30,
       rendered = (\<lambda>k. [] :: video list)\<rparr>"
  let ?w = "loadScript [] []"
  have st: "scrollToBottom ?pg = Stable 8"
    by (simp add: scrollToBottom_def) code_simp
  have idle: "\<not> isReordering ?w" by (simp add: loadScript_def)
  have pv: "planVideos ''asc'' 0 (rendered ?pg (checksDone (scrollToBottom ?pg))) =
      Inr [\<lparr>duration = 7, title = ''A''\<rparr>]"
    by (simp add: planVideos_def sortBy_def)
  have hyp: "hasContainer ?tall \<and> heights ?tall 0 \<noteq> 0 \<and>
      (\<forall>j. heights ?tall (Suc j) \<noteq> heights ?tall j)" by simp
  note t1 = scrollToBottom_ends [of ?pg ?w "''asc''" 0]
  note t2 = scrollToBottom_ends [of ?tall ?w "''asc''" 0]
  from t1 st have h: "heights ?pg (8 - 3) = heights ?pg (8 - 2)" by blast
  from t1 idle have "case planVideos ''asc'' 0 (rendered ?pg (checksDone (scrollToBottom ?pg))) of
         Inr plan \<Rightarrow> reorderPlan (generateReorderPlan ''asc'' 0 ?pg ?w) = plan
       | Inl msg \<Rightarrow>
           statusField ''message'' (storage (generateReorderPlan ''asc'' 0 ?pg ?w)) =
             Some (JString msg)" by blast
  with pv have rp: "reorderPlan (generateReorderPlan ''asc'' 0 ?pg ?w) =
      [\<lparr>duration = 7, title = ''A''\<rparr>]" by simp
  from t2 hyp have "scrollToBottom ?tall = TimedOut (failsafeTicks ?tall)" by blast
  then have to: "scrollToBottom ?tall = TimedOut 30" by simp
  from st h idle rp to show ?thesis by simp
qed

text \<open>
  C5, as stated, fails: on a page that is taller at every check the phase still ends,
  at the failsafe, after 30 checks.
\<close>

theorem scrolling_ends_while_growing:
  "(\<forall>k. (\<lambda>k. int k + 1) k < (\<lambda>k. int k + 1) (Suc k)) \<and>
   scrollToBottom \<lparr>hasContainer = True, heights = (\<lambda>k. int k + 1), failsafeTicks = 30,
       rendered = (\<lambda>k. [])\<rparr> = TimedOut 30"
  by (simp add: scrollToBottom_def) code_simp

text \<open>
  \<open>loadAllVideos\<close> of \<^verbatim>\<open>content_script.js\<close> has no failsafe.  When it returns,
  the last five reads gave the same number of entries; while every read gives more
  entries than the one before, it does not return.
\<close>

lemma loadAllVideosLoop_returns_aux:
  assumes "loadAllVideosLoop countAt k l c r = Some m"
  shows "r \<le> k \<and> (\<forall>j. k - r \<le> j \<and> j < k \<longrightarrow> countAt j = c) \<longrightarrow>
   5 \<le> m \<and> (\<forall>j. m - 5 \<le> j \<and> j < m \<longrightarrow> countAt j = countAt (m - 1))"
  using assms
proof (induction countAt k l c r m rule: loadAllVideosLoop.raw_induct [rotated 1, consumes 1])
  case (1 loop countAt k l c r m)
  note IH = 1(1) and eq = 1(2)
  show ?case
  proof (intro impI, elim conjE)
    assume rk: "r \<le> k" and old: "\<forall>j. k - r \<le> j \<and> j < k \<longrightarrow> countAt j = c"
    show "5 \<le> m \<and> (\<forall>j. m - 5 \<le> j \<and> j < m \<longrightarrow> countAt j = countAt (m - 1))"
    proof (cases "l < c \<or> r < 5")
      case True
      define r' where "r' = (if c = countAt k then r + 1 else 0)"
      from True eq have run: "loop countAt (k + 1) c (countAt k) r' = Some m"
        by (simp add: r'_def)
      have le: "r' \<le> k + 1" using rk by (simp add: r'_def)
      have inv: "\<forall>j. k + 1 - r' \<le> j \<and> j < k + 1 \<longrightarrow> countAt j = countAt k"
      proof (intro allI impI)
        fix j assume j: "k + 1 - r' \<le> j \<and> j < k + 1"
        show "countAt j = countAt k"
        proof (cases "j = k")
          case True
          then show ?thesis by simp
        next
          case False
          with j have jk: "j < k" by simp
          show ?thesis
          proof (cases "c = countAt k")
            case True
            then have "r' = r + 1" by (simp add: r'_def)
            with j jk rk have "k - r \<le> j \<and> j < k" by arith
            with old have "countAt j = c" by blast
            with True show ?thesis by simp
          next
            case False
            then have "r' = 0" by (simp add: r'_def)
            with j jk show ?thesis by simp
          qed
        qed
      qed
      from le inv have "r' \<le> k + 1 \<and>
          (\<forall>j. k + 1 - r' \<le> j \<and> j < k + 1 \<longrightarrow> countAt j = countAt k)" ..
      with IH [OF run] show ?thesis by (rule mp)
    next
      case False
      with eq have m: "m = k" and r5: "5 \<le> r" by simp_all
      have "countAt j = countAt (m - 1)" if "m - 5 \<le> j \<and> j < m" for j
      proof -
        from that m r5 rk have "k - r \<le> j \<and> j < k" by arith
        moreover from r5 rk have "k - r \<le> k - 1 \<and> k - 1 < k" by arith
        ultimately have "countAt j = c" "countAt (k - 1) = c" using old by blast+
        then show ?thesis by (simp add: m)
      qed
      then have all: "\<forall>j. m - 5 \<le> j \<and> j < m \<longrightarrow> countAt j = countAt (m - 1)" by blast
      have "5 \<le> m" using m r5 rk by simp
      then show ?thesis using all ..
    qed
  qed
qed

lemma loadAllVideosLoop_returns:
  assumes "loadAllVideosLoop countAt k l c r = Some m"
    and "r \<le> k" and "\<forall>j. k - r \<le> j \<and> j < k \<longrightarrow> countAt j = c"
  shows "5 \<le> m \<and> (\<forall>j. m - 5 \<le> j \<and> j < m \<longrightarrow> countAt j = countAt (m - 1))"
  using loadAllVideosLoop_returns_aux [OF assms(1)] assms(2,3) by blast

lemma loadAllVideos_stops_only_when_stable:
  assumes "loadAllVideos True initialCount countAt = Some m"
  shows "5 \<le> m \<and> (\<forall>j. m - 5 \<le> j \<and> j < m \<longrightarrow> countAt j = countAt (m - 1))"
proof -
  from assms have "loadAllVideosLoop countAt 0 0 initialCount 0 = Some m"
    by (simp add: loadAllVideos_def)
  then show ?thesis by (rule loadAllVideosLoop_returns) simp_all
qed

lemma loadAllVideos_never_stops_while_growing:
  assumes "\<forall>k. countAt k < countAt (Suc k)"
  shows "loadAllVideos True initialCount countAt = None"
proof (cases "loadAllVideos True initialCount countAt")
  case None
  then show ?thesis .
next
  case (Some m)
  from loadAllVideos_stops_only_when_stable [OF Some]
  have m5: "5 \<le> m" and eq: "\<forall>j. m - 5 \<le> j \<and> j < m \<longrightarrow> countAt j = countAt (m - 1)"
    by blast+
  from m5 have "m - 5 \<le> m - 2 \<and> m - 2 < m" by arith
  with eq have "countAt (m - 2) = countAt (m - 1)" by blast
  moreover from assms have "countAt (m - 2) < countAt (Suc (m - 2))" by blast
  moreover from m5 have "Suc (m - 2) = m - 1" by arith
  ultimately show ?thesis by simp
qed

section \<open>The executor\<close>

lemma deliver_never [simp]: "deliver (never p) w = w"
  by (simp add: deliver_def never_def)

lemma moveToTop_fields [simp]:
  "isReordering (moveToTop el w) = isReordering w"
  "isCancelled (moveToTop el w) = isCancelled w"
  "reorderPlan (moveToTop el w) = reorderPlan w"
  "storage (moveToTop el w) = storage w"
  "playlist (moveToTop el w) = el # remove1 el (playlist w)"
  "events (moveToTop el w) = events w @ [MoveToTop el]"
  by (simp_all add: moveToTop_def)

lemma moveAndReport_never:
  "isReordering (moveAndReport never tv i el w) = isReordering w"
  "isCancelled (moveAndReport never tv i el w) = isCancelled w"
  "reorderPlan (moveAndReport never tv i el w) = reorderPlan w"
  "playlist (moveAndReport never tv i el w) = el # remove1 el (playlist w)"
  "events (moveAndReport never tv i el w) = events w @ [MoveToTop el]"
  by (simp_all add: moveAndReport_def Let_def)

lemma findVideoElementByTitle_present:
  "Some t \<in> set els \<Longrightarrow> findVideoElementByTitle t els = Some (Some t)"
  unfolding findVideoElementByTitle_def
  by (induction els) (auto split: option.splits)

lemma reorderLoop_never:
  assumes "distinct (playlist w)" and "distinct (map title (reorderPlan w))"
    and "\<forall>v \<in> set (reorderPlan w). Some (title v) \<in> set (playlist w)"
    and "\<not> isCancelled w" and "k \<le> length (reorderPlan w)"
  shows "\<exists>w'. reorderLoop scroll never tv k w = Inr w' \<and>
     playlist w' = map (\<lambda>v. Some (title v)) (take k (reorderPlan w)) @
       filter (\<lambda>e. e \<notin> (\<lambda>v. Some (title v)) ` set (take k (reorderPlan w))) (playlist w) \<and>
     events w' = events w @ map (\<lambda>v. MoveToTop (Some (title v))) (rev (take k (reorderPlan w)))"
  using assms
proof (induction k arbitrary: w)
  case 0
  then show ?case by simp
next
  case (Suc i)
  define plan where "plan = reorderPlan w"
  define t where "t = title (plan ! i)"
  define w1 where "w1 = moveAndReport never tv i (Some t) w"
  have tt: "title (plan ! i) = t" by (simp add: t_def)
  have i: "i < length plan" using Suc.prems(5) by (simp add: plan_def)
  have tin: "Some t \<in> set (playlist w)"
    using Suc.prems(3) i by (simp add: t_def plan_def)
  have "iteration scroll never tv i w = Inr w1"
    using i findVideoElementByTitle_present [OF tin]
    by (simp add: iteration_def plan_def [symmetric] t_def [symmetric] w1_def Let_def)
  then have step: "reorderLoop scroll never tv (Suc i) w = reorderLoop scroll never tv i w1"
    using Suc.prems(4) by simp
  have w1: "reorderPlan w1 = plan" "isCancelled w1 = isCancelled w"
    "playlist w1 = Some t # remove1 (Some t) (playlist w)"
    "events w1 = events w @ [MoveToTop (Some t)]"
    by (simp_all add: w1_def moveAndReport_never plan_def)
  have d1: "distinct (playlist w1)" using Suc.prems(1) by (simp add: w1)
  have s1: "set (playlist w1) = set (playlist w)"
    using tin Suc.prems(1) by (auto simp: w1)
  from Suc.IH [of w1] d1 s1 Suc.prems(2,3,4) i
  obtain w' where w': "reorderLoop scroll never tv i w1 = Inr w'"
    "playlist w' = map (\<lambda>v. Some (title v)) (take i plan) @
       filter (\<lambda>e. e \<notin> (\<lambda>v. Some (title v)) ` set (take i plan)) (playlist w1)"
    "events w' = events w1 @ map (\<lambda>v. MoveToTop (Some (title v))) (rev (take i plan))"
    by (auto simp: w1 plan_def)
  have tk: "take (Suc i) plan = take i plan @ [plan ! i]"
    using i by (simp add: take_Suc_conv_app_nth)
  have tnew: "Some t \<notin> (\<lambda>v. Some (title v)) ` set (take i plan)"
  proof
    assume "Some t \<in> (\<lambda>v. Some (title v)) ` set (take i plan)"
    then obtain v where v: "v \<in> set (take i plan)" "title v = t" by auto
    then obtain j where j: "j < i" "take i plan ! j = v"
      using i by (auto simp: in_set_conv_nth)
    have mj: "map title plan ! j = t" using i j v(2) by simp
    have mi: "map title plan ! i = t" using i by (simp add: t_def)
    have "distinct (map title plan)" using Suc.prems(2) by (simp add: plan_def)
    then have "(map title plan ! j = map title plan ! i) = (j = i)"
      using i j(1) by (intro nth_eq_iff_index_eq) simp_all
    with mj mi j(1) show False by simp
  qed
  have rm: "remove1 (Some t) (playlist w) = filter (\<lambda>e. e \<noteq> Some t) (playlist w)"
    using Suc.prems(1)
    by (auto simp: distinct_remove1_removeAll removeAll_filter_not_eq intro!: filter_cong)
  have fl: "filter (\<lambda>e. e \<notin> (\<lambda>v. Some (title v)) ` set (take i plan)) (playlist w1) =
      Some t # filter (\<lambda>e. e \<notin> (\<lambda>v. Some (title v)) ` set (take (Suc i) plan)) (playlist w)"
    using tnew by (auto simp: w1 rm tk tt intro!: filter_cong)
  show ?case
    using step w' fl by (simp add: plan_def [symmetric] tk w1 tt)
qed

lemma moveAndReport_never_keeps:
  "reorderPlan (moveAndReport never tv i el w) = reorderPlan w \<and>
   isCancelled (moveAndReport never tv i el w) = isCancelled w"
  by (simp add: moveAndReport_never)

lemma iteration_never_keeps:
  "iteration scroll never tv i w = Inr w' \<Longrightarrow>
   reorderPlan w' = reorderPlan w \<and> isCancelled w' = isCancelled w"
  by (auto simp: iteration_def Let_def moveAndReport_never split: if_splits option.splits)

lemma reorderLoop_never_keeps:
  "reorderLoop scroll never tv k w = Inr w' \<Longrightarrow>
   reorderPlan w' = reorderPlan w \<and> isCancelled w' = isCancelled w"
proof (induction k arbitrary: w)
  case 0
  then show ?case by simp
next
  case (Suc i)
  show ?case
  proof (cases "isCancelled w")
    case True
    with Suc.prems show ?thesis by auto
  next
    case False
    with Suc.prems obtain u where u: "iteration scroll never tv i w = Inr u"
      "reorderLoop scroll never tv i u = Inr w'"
      by (auto split: sum.splits)
    from iteration_never_keeps [OF u(1)] Suc.IH [OF u(2)] show ?thesis by simp
  qed
qed




text \<open>
  The whole of \<open>executeReorder\<close> on such a page and plan, with the container found:
  the verification succeeds and the run ends in state \<open>complete\<close>.
\<close>

lemma verifyOrder_world:
  "events (snd (verifyOrder w)) = events w"
  "playlist (snd (verifyOrder w)) = playlist w"
  by (simp_all add: verifyOrder_def Let_def)

lemma verifyOrder_Verified:
  assumes "take (length (reorderPlan w)) (playlist w) = map (\<lambda>v. Some (title v)) (reorderPlan w)"
  shows "fst (verifyOrder w) = Verified"
proof -
  define plan where "plan = reorderPlan w"
  define cur where "cur = map titleOrUntitled (take (length plan) (playlist w))"
  have len: "length plan \<le> length (playlist w)"
  proof -
    have "length (take (length plan) (playlist w)) = length plan"
      using assms by (simp add: plan_def)
    then show ?thesis by simp
  qed
  have cur: "cur = map title plan"
    using assms by (simp add: cur_def plan_def titleOrUntitled_def comp_def)
  have "compareOrder 0 cur plan = Verified"
    by (subst compareOrder_Verified) (simp_all add: cur)
  with len show ?thesis
    by (simp add: verifyOrder_def Let_def plan_def cur_def)
qed

lemma executeReorder_completes:
  assumes "reorderPlan w \<noteq> []" and "distinct (playlist w)"
    and "distinct (map title (reorderPlan w))"
    and "\<forall>v \<in> set (reorderPlan w). Some (title v) \<in> set (playlist w)"
    and "\<not> isCancelled w"
  shows "statusField ''state'' (storage (executeReorder True scroll never w)) =
           Some (JString ''complete'') \<and>
         playlist (executeReorder True scroll never w) =
           map (\<lambda>v. Some (title v)) (reorderPlan w) @
           filter (\<lambda>e. e \<notin> (\<lambda>v. Some (title v)) ` set (reorderPlan w)) (playlist w) \<and>
         events (executeReorder True scroll never w) =
           events w @ map (\<lambda>v. MoveToTop (Some (title v))) (rev (reorderPlan w)) \<and>
         \<not> isReordering (executeReorder True scroll never w) \<and>
         reorderPlan (executeReorder True scroll never w) = []"
proof -
  define n where "n = length (reorderPlan w)"
  define w1 where "w1 = updateStatus ''reordering'' (Some 0) (Some (int n)) None None
      (w\<lparr>isReordering := True\<rparr>)"
  have f1: "playlist w1 = playlist w" "reorderPlan w1 = reorderPlan w"
    "isCancelled w1 = isCancelled w" "events w1 = events w"
    by (simp_all add: w1_def)
  from reorderLoop_never [of w1 n scroll n] assms f1
  obtain w2 where w2: "reorderLoop scroll never n n w1 = Inr w2"
    "playlist w2 = map (\<lambda>v. Some (title v)) (reorderPlan w) @
       filter (\<lambda>e. e \<notin> (\<lambda>v. Some (title v)) ` set (reorderPlan w)) (playlist w)"
    "events w2 = events w @ map (\<lambda>v. MoveToTop (Some (title v))) (rev (reorderPlan w))"
    by (auto simp: n_def)
  have keep: "reorderPlan w2 = reorderPlan w \<and> isCancelled w2 = isCancelled w"
    using reorderLoop_never_keeps [of scroll n n w1] w2(1) f1 by simp
  have "take (length (reorderPlan w2)) (playlist w2) = map (\<lambda>v. Some (title v)) (reorderPlan w2)"
    using keep w2(2) by simp
  from verifyOrder_Verified [OF this] obtain w3 where
    v: "verifyOrder w2 = (Verified, w3)" "w3 = snd (verifyOrder w2)"
    by (cases "verifyOrder w2") auto
  have w3: "playlist w3 = playlist w2" "events w3 = events w2"
    by (simp_all add: v(2) verifyOrder_world)
  have n0: "length (reorderPlan w) \<noteq> 0" using assms(1) by simp
  have "executeReorder True scroll never w =
      (updateStatus ''complete'' (Some (int n)) (Some (int n)) None None w3)
        \<lparr>reorderPlan := [], isReordering := False, isCancelled := False\<rparr>"
    unfolding executeReorder_def Let_def
    using n0 assms(5) w2(1) v(1) keep
    by (simp add: n_def [symmetric] w1_def [symmetric] f1)
  moreover have "statusField ''state'' (storage
      ((updateStatus ''complete'' (Some (int n)) (Some (int n)) None None w3)
        \<lparr>reorderPlan := [], isReordering := False, isCancelled := False\<rparr>)) =
      Some (JString ''complete'')"
    by (simp add: statusField_updateStatus statusRecord_def)
  ultimately show ?thesis
    by (simp add: w3 w2)
qed

text \<open>Five seconds after a run that ended in \<open>complete\<close>, the timer sets the state to idle.\<close>

lemma resetAfterComplete_idle:
  "statusField ''state'' (storage w) = Some (JString ''complete'') \<Longrightarrow>
   statusField ''state'' (storage (resetAfterComplete w)) = Some (JString ''idle'')"
  by (simp add: resetAfterComplete_def statusField_updateStatus statusRecord_def)

text \<open>
  Plan, execution and verification in a row, on the three videos of the planner's
  test: the page ends in ascending order and the state is \<open>complete\<close>.
\<close>

lemma plan_execute_verify_example:
  "playlist (executeReorder True id never
     (generateReorderPlan ''asc'' 0
        \<lparr>hasContainer = True, heights = (\<lambda>k. 800), failsafeTicks = 30,
           rendered = (\<lambda>k. [\<lparr>duration = 300, title = ''Long''\<rparr>,
                            \<lparr>duration = 30, title = ''Short''\<rparr>,
                            \<lparr>duration = 120, title = ''Medium''\<rparr>])\<rparr>
        (loadScript [] [Some ''Long'', Some ''Short'', Some ''Medium'']))) =
     [Some ''Short'', Some ''Medium'', Some ''Long''] \<and>
   statusField ''state'' (storage (executeReorder True id never
     (generateReorderPlan ''asc'' 0
        \<lparr>hasContainer = True, heights = (\<lambda>k. 800), failsafeTicks = 30,
           rendered = (\<lambda>k. [\<lparr>duration = 300, title = ''Long''\<rparr>,
                            \<lparr>duration = 30, title = ''Short''\<rparr>,
                            \<lparr>duration = 120, title = ''Medium''\<rparr>])\<rparr>
        (loadScript [] [Some ''Long'', Some ''Short'', Some ''Medium''])))) =
     Some (JString ''complete'')"
  by code_simp

section \<open>Cancelling\<close>

lemma dropWhile_no_cancel:
  "CancelRequest \<notin> set evs \<Longrightarrow> dropWhile (\<lambda>e. e \<noteq> CancelRequest) evs = []"
  by (induction evs) auto

lemma movesAfterCancel_no_cancel:
  "CancelRequest \<notin> set evs \<Longrightarrow> movesAfterCancel evs = 0"
  by (simp add: movesAfterCancel_def dropWhile_no_cancel)

lemma movesAfterCancel_snoc_cancel:
  "movesAfterCancel (evs @ [CancelRequest]) = movesAfterCancel evs"
  by (cases "CancelRequest \<in> set evs")
    (auto simp: movesAfterCancel_def dropWhile_append dropWhile_no_cancel)

lemma movesAfterCancel_snoc_move:
  "movesAfterCancel (evs @ [MoveToTop e]) \<le> Suc (movesAfterCancel evs)"
  by (cases "CancelRequest \<in> set evs")
    (auto simp: movesAfterCancel_def dropWhile_append dropWhile_no_cancel)

lemma deliver_fields [simp]:
  "playlist (deliver b w) = playlist w"
  "isCancelled (deliver b w) = (isCancelled w \<or> (b \<and> isReordering w))"
  "isReordering (deliver b w) = (isReordering w \<and> \<not> b)"
  "set (events (deliver b w)) = (if b then insert CancelRequest (set (events w)) else set (events w))"
  by (simp_all add: deliver_def onMessage_def)

lemma deliver_events:
  "events (deliver b w) = (if b then events w @ [CancelRequest] else events w)"
  by (simp add: deliver_def onMessage_def)

lemma deliver_moves [simp]:
  "movesAfterCancel (events (deliver b w)) = movesAfterCancel (events w)"
  by (simp add: deliver_events movesAfterCancel_snoc_cancel)

lemma deliver_status_idle:
  "statusField ''state'' (storage w) = Some (JString ''idle'') \<Longrightarrow>
   statusField ''state'' (storage (deliver b w)) = Some (JString ''idle'')"
  by (simp add: deliver_def onMessage_def statusField_updateStatus statusRecord_def)

lemma moveAndReport_cancel:
  assumes "isReordering w \<or> isCancelled w"
    and "CancelRequest \<in> set (events w) \<longrightarrow> isCancelled w"
  shows "isReordering (moveAndReport sched tv i el w) \<or> isCancelled (moveAndReport sched tv i el w)"
    and "CancelRequest \<in> set (events (moveAndReport sched tv i el w)) \<longrightarrow>
         isCancelled (moveAndReport sched tv i el w)"
    and "movesAfterCancel (events (moveAndReport sched tv i el w)) \<le> Suc (movesAfterCancel (events w))"
proof -
  define w1 where "w1 = deliver (sched (Menu i)) w"
  define w2 where "w2 = moveToTop el w1"
  define w3 where "w3 = deliver (sched (Wait i)) w2"
  define w4 where "w4 = updateStatus ''reordering'' (Some (int (length (reorderPlan w3)) - int i))
                 (Some (int tv)) None None w3"
  define w5 where "w5 = deliver (sched (Progress i)) w4"
  have r: "moveAndReport sched tv i el w = w5"
    by (simp add: moveAndReport_def Let_def w1_def w2_def w3_def w4_def w5_def)
  have i1: "isReordering w1 \<or> isCancelled w1" "CancelRequest \<in> set (events w1) \<longrightarrow> isCancelled w1"
    using assms by (auto simp: w1_def)
  have i2: "isReordering w2 \<or> isCancelled w2" "CancelRequest \<in> set (events w2) \<longrightarrow> isCancelled w2"
    using i1 by (auto simp: w2_def)
  have i3: "isReordering w3 \<or> isCancelled w3" "CancelRequest \<in> set (events w3) \<longrightarrow> isCancelled w3"
    using i2 by (auto simp: w3_def)
  have i4: "isReordering w4 \<or> isCancelled w4" "CancelRequest \<in> set (events w4) \<longrightarrow> isCancelled w4"
    using i3 by (auto simp: w4_def)
  have i5: "isReordering w5 \<or> isCancelled w5" "CancelRequest \<in> set (events w5) \<longrightarrow> isCancelled w5"
    using i4 by (auto simp: w5_def)
  have "movesAfterCancel (events w5) = movesAfterCancel (events w2)"
    by (simp add: w5_def w4_def w3_def)
  also have "\<dots> \<le> Suc (movesAfterCancel (events w1))"
    by (simp add: w2_def movesAfterCancel_snoc_move)
  also have "movesAfterCancel (events w1) = movesAfterCancel (events w)"
    by (simp add: w1_def)
  finally have m: "movesAfterCancel (events w5) \<le> Suc (movesAfterCancel (events w))" .
  from i5 m r show
    "isReordering (moveAndReport sched tv i el w) \<or> isCancelled (moveAndReport sched tv i el w)"
    "CancelRequest \<in> set (events (moveAndReport sched tv i el w)) \<longrightarrow>
         isCancelled (moveAndReport sched tv i el w)"
    "movesAfterCancel (events (moveAndReport sched tv i el w)) \<le> Suc (movesAfterCancel (events w))"
    by simp_all
qed

lemma iteration_cancel:
  assumes "isReordering w \<or> isCancelled w"
    and "CancelRequest \<in> set (events w) \<longrightarrow> isCancelled w"
  shows "(isReordering (finalWorld (iteration scroll sched tv i w)) \<or>
          isCancelled (finalWorld (iteration scroll sched tv i w))) \<and>
         (CancelRequest \<in> set (events (finalWorld (iteration scroll sched tv i w))) \<longrightarrow>
          isCancelled (finalWorld (iteration scroll sched tv i w))) \<and>
         movesAfterCancel (events (finalWorld (iteration scroll sched tv i w))) \<le>
           Suc (movesAfterCancel (events w))"
proof (cases "length (reorderPlan w) \<le> i")
  case True
  with assms show ?thesis by (simp add: iteration_def)
next
  case inrange: False
  define t where "t = title (reorderPlan w ! i)"
  show ?thesis
  proof (cases "findVideoElementByTitle t (playlist w)")
    case (Some el)
    then have "iteration scroll sched tv i w = Inr (moveAndReport sched tv i el w)"
      using inrange by (simp add: iteration_def t_def Let_def)
    with moveAndReport_cancel [OF assms, of sched tv i el] show ?thesis by simp
  next
    case None
    define w3 where "w3 = (deliver (sched (Search i)) (updateStatus ''reordering''
                       (Some (int (length (reorderPlan w)) - 1 - int i)) (Some (int tv))
                       (Some (searchingMsg t)) None w))
        \<lparr>playlist := scroll (playlist (deliver (sched (Search i)) (updateStatus ''reordering''
                       (Some (int (length (reorderPlan w)) - 1 - int i)) (Some (int tv))
                       (Some (searchingMsg t)) None w)))\<rparr>"
    have u: "isReordering w3 \<or> isCancelled w3"
      "CancelRequest \<in> set (events w3) \<longrightarrow> isCancelled w3"
      "movesAfterCancel (events w3) = movesAfterCancel (events w)"
      using assms by (auto simp: w3_def)
    have it: "iteration scroll sched tv i w =
        (case findVideoElementByTitle t (playlist w3) of
           None \<Rightarrow> Inl (notFoundMsg t, w3)
         | Some el \<Rightarrow> Inr (moveAndReport sched tv i el w3))"
      unfolding iteration_def Let_def w3_def t_def [symmetric]
      using inrange None by (simp only: if_False option.case)
    show ?thesis
    proof (cases "findVideoElementByTitle t (playlist w3)")
      case None
      with it u show ?thesis by simp
    next
      case (Some el)
      with it moveAndReport_cancel [OF u(1,2), of sched tv i el] u(3) show ?thesis by simp
    qed
  qed
qed

lemma reorderLoop_cancel:
  assumes "isReordering w \<or> isCancelled w"
    and "CancelRequest \<in> set (events w) \<longrightarrow> isCancelled w"
  shows "(isCancelled w \<longrightarrow>
            movesAfterCancel (events (finalWorld (reorderLoop scroll sched tv k w))) =
            movesAfterCancel (events w)) \<and>
         (\<not> isCancelled w \<longrightarrow>
            movesAfterCancel (events (finalWorld (reorderLoop scroll sched tv k w))) \<le> 1)"
  using assms
proof (induction k arbitrary: w)
  case 0
  then show ?case by (auto simp: movesAfterCancel_no_cancel)
next
  case (Suc i)
  show ?case
  proof (cases "isCancelled w")
    case True
    then show ?thesis by simp
  next
    case False
    with Suc.prems have "CancelRequest \<notin> set (events w)" by auto
    then have m0: "movesAfterCancel (events w) = 0" by (simp add: movesAfterCancel_no_cancel)
    define r where "r = iteration scroll sched tv i w"
    from iteration_cancel [OF Suc.prems, of scroll sched tv i] m0
    have v: "isReordering (finalWorld r) \<or> isCancelled (finalWorld r)"
      "CancelRequest \<in> set (events (finalWorld r)) \<longrightarrow> isCancelled (finalWorld r)"
      "movesAfterCancel (events (finalWorld r)) \<le> 1"
      by (simp_all add: r_def)
    show ?thesis
    proof (cases r)
      case (Inl thrown)
      then have "reorderLoop scroll sched tv (Suc i) w = r"
        using False by (simp add: r_def [symmetric])
      with v(3) False show ?thesis by simp
    next
      case (Inr w')
      then have "reorderLoop scroll sched tv (Suc i) w = reorderLoop scroll sched tv i w'"
        using False by (simp add: r_def [symmetric])
      moreover from Inr v have "isReordering w' \<or> isCancelled w'"
        "CancelRequest \<in> set (events w') \<longrightarrow> isCancelled w'"
        "movesAfterCancel (events w') \<le> 1" by simp_all
      ultimately show ?thesis
        using Suc.IH [of w'] False by (cases "isCancelled w'") auto
    qed
  qed
qed

lemma reorderLoop_cancelled_head:
  assumes "isCancelled w"
  shows "\<exists>w'. reorderLoop scroll sched tv (Suc i) w = Inr w' \<and> playlist w' = playlist w \<and>
     filter (\<lambda>e. e \<noteq> CancelRequest) (events w') = filter (\<lambda>e. e \<noteq> CancelRequest) (events w) \<and>
     statusField ''state'' (storage w') = Some (JString ''idle'')"
  using assms
  by (simp add: deliver_events deliver_status_idle statusField_updateStatus statusRecord_def)

lemma cancelReorder_handled:
  assumes "isReordering w"
  shows "\<exists>w'. onMessage CancelReorder w = (Some (Response ''cancelling'' None), None, w') \<and>
     isCancelled w' \<and> \<not> isReordering w' \<and> reorderPlan w' = [] \<and>
     statusField ''state'' (storage w') = Some (JString ''idle'')"
  using assms by (simp add: onMessage_def statusField_updateStatus statusRecord_def)

lemma executeReorder_cancel:
  assumes "events w = []"
  shows "movesAfterCancel (events (executeReorder containerFound scroll sched w)) \<le> 1"
proof (cases "length (reorderPlan w) = 0")
  case True
  with assms show ?thesis by (simp add: executeReorder_def movesAfterCancel_def)
next
  case False
  define n where "n = length (reorderPlan (w\<lparr>isReordering := True\<rparr>))"
  define w1 where "w1 = deliver (sched BeforeLoop)
      (updateStatus ''reordering'' (Some 0) (Some (int n)) None None (w\<lparr>isReordering := True\<rparr>))"
  have inv: "isReordering w1 \<or> isCancelled w1" "CancelRequest \<in> set (events w1) \<longrightarrow> isCancelled w1"
    using assms by (auto simp: w1_def)
  have "movesAfterCancel (events w1) = movesAfterCancel (events w)"
    by (simp add: w1_def)
  also have "\<dots> = 0" using assms by (simp add: movesAfterCancel_def)
  finally have m1: "movesAfterCancel (events w1) = 0" .
  define r where "r = reorderLoop scroll sched n (length (reorderPlan w1)) w1"
  have mr: "movesAfterCancel (events (finalWorld r)) \<le> 1"
    using reorderLoop_cancel [OF inv, of scroll sched n "length (reorderPlan w1)"] m1
    by (cases "isCancelled w1") (auto simp: r_def)
  define outcome where "outcome =
     (if \<not> containerFound then Inl (''Could not find playlist container.'', w1)
      else case r of
             Inl thrown \<Rightarrow> Inl thrown
           | Inr w2 \<Rightarrow>
               if isCancelled w2 then Inr w2
               else (case verifyOrder w2 of
                       (Verified, w3) \<Rightarrow>
                         Inr (updateStatus ''complete'' (Some (int n)) (Some (int n)) None None w3)
                     | (Failed verificationResult, w3) \<Rightarrow> Inl (verificationResult, w3)))"
  have mo: "movesAfterCancel (events (finalWorld outcome)) \<le> 1"
  proof (cases containerFound)
    case False
    then show ?thesis by (simp add: outcome_def m1)
  next
    case True
    show ?thesis
    proof (cases r)
      case (Inl thrown)
      with True mr show ?thesis by (simp add: outcome_def)
    next
      case (Inr w2)
      show ?thesis
      proof (cases "isCancelled w2")
        case c: True
        with True Inr mr show ?thesis by (simp add: outcome_def)
      next
        case c: False
        obtain verdict w3 where v: "verifyOrder w2 = (verdict, w3)" by (cases "verifyOrder w2")
        then have "events w3 = events w2" using verifyOrder_world(1) [of w2] by simp
        with True Inr c v mr show ?thesis
          by (cases verdict) (simp_all add: outcome_def)
      qed
    qed
  qed
  have "executeReorder containerFound scroll sched w =
      (case outcome of
         Inl (errorMessage, w') \<Rightarrow>
           updateStatus ''error'' (Some 0) (Some 0) (Some errorMessage) None w'
       | Inr w' \<Rightarrow> w')\<lparr>reorderPlan := [], isReordering := False, isCancelled := False\<rparr>"
    unfolding executeReorder_def Let_def outcome_def r_def w1_def n_def
    using False by simp
  then have "events (executeReorder containerFound scroll sched w) = events (finalWorld outcome)"
    by (cases outcome) auto
  with mo show ?thesis by simp
qed

text \<open>
  C4, as it holds.  A cancel request that arrives while \<open>isReordering\<close> is set is
  answered with \<open>cancelling\<close>; its handler sets \<open>isCancelled\<close> and writes the
  state \<open>idle\<close>.  A loop that meets the flag at the head of a round moves nothing
  more, writes \<open>idle\<close> and stops.  In a whole run of the loop, whatever the moment
  of the request, at most one "Move to top" is clicked after it: that of the round the
  request fell into.  The same bound holds for \<open>executeReorder\<close> as a whole.
\<close>

theorem cancel_stops_reordering:
  "(isReordering w \<longrightarrow>
      (\<exists>w'. onMessage CancelReorder w = (Some (Response ''cancelling'' None), None, w') \<and>
         isCancelled w' \<and> statusField ''state'' (storage w') = Some (JString ''idle''))) \<and>
   (isCancelled w \<longrightarrow>
      (\<exists>w'. reorderLoop scroll sched totalVideos (Suc i) w = Inr w' \<and>
         playlist w' = playlist w \<and>
         filter (\<lambda>e. e \<noteq> CancelRequest) (events w') =
           filter (\<lambda>e. e \<noteq> CancelRequest) (events w) \<and>
         statusField ''state'' (storage w') = Some (JString ''idle''))) \<and>
   (isReordering w \<and> events w = [] \<longrightarrow>
      movesAfterCancel (events (finalWorld (reorderLoop scroll sched totalVideos k w))) \<le> 1) \<and>
   (events w = [] \<longrightarrow>
      movesAfterCancel (events (executeReorder containerFound scroll sched w)) \<le> 1)"
proof (intro conjI impI)
  assume "isReordering w"
  from cancelReorder_handled [OF this]
  show "\<exists>w'. onMessage CancelReorder w = (Some (Response ''cancelling'' None), None, w') \<and>
         isCancelled w' \<and> statusField ''state'' (storage w') = Some (JString ''idle'')"
    by blast
next
  assume "isCancelled w"
  from reorderLoop_cancelled_head [OF this]
  show "\<exists>w'. reorderLoop scroll sched totalVideos (Suc i) w = Inr w' \<and>
         playlist w' = playlist w \<and>
         filter (\<lambda>e. e \<noteq> CancelRequest) (events w') =
           filter (\<lambda>e. e \<noteq> CancelRequest) (events w) \<and>
         statusField ''state'' (storage w') = Some (JString ''idle'')"
    by blast
next
  assume a: "isReordering w \<and> events w = []"
  then have "isReordering w \<or> isCancelled w" "CancelRequest \<in> set (events w) \<longrightarrow> isCancelled w"
    "movesAfterCancel (events w) = 0"
    by (simp_all add: movesAfterCancel_def)
  with reorderLoop_cancel [of w scroll sched totalVideos k]
  show "movesAfterCancel (events (finalWorld (reorderLoop scroll sched totalVideos k w))) \<le> 1"
    by (cases "isCancelled w") auto
next
  assume "events w = []"
  then show "movesAfterCancel (events (executeReorder containerFound scroll sched w)) \<le> 1"
    by (rule executeReorder_cancel)
qed

theorem cancel_stops_reordering_witness:
  "isReordering \<lparr>isReordering = True, isCancelled = False,
        reorderPlan = [\<lparr>duration = 30, title = ''A''\<rparr>, \<lparr>duration = 40, title = ''B''\<rparr>],
        storage = [], playlist = [Some ''A'', Some ''B''], events = []\<rparr> \<and>
   (\<exists>w'. onMessage CancelReorder \<lparr>isReordering = True, isCancelled = False,
        reorderPlan = [\<lparr>duration = 30, title = ''A''\<rparr>, \<lparr>duration = 40, title = ''B''\<rparr>],
        storage = [], playlist = [Some ''A'', Some ''B''], events = []\<rparr> =
          (Some (Response ''cancelling'' None), None, w') \<and>
      statusField ''state'' (storage w') = Some (JString ''idle'')) \<and>
   events (finalWorld (reorderLoop id (\<lambda>p. p = Wait 1) 2 2 \<lparr>isReordering = True, isCancelled = False,
        reorderPlan = [\<lparr>duration = 30, title = ''A''\<rparr>, \<lparr>duration = 40, title = ''B''\<rparr>],
        storage = [], playlist = [Some ''A'', Some ''B''], events = []\<rparr>)) =
     [MoveToTop (Some ''B''), CancelRequest] \<and>
   movesAfterCancel (events (finalWorld (reorderLoop id (\<lambda>p. p = Wait 1) 2 2
      \<lparr>isReordering = True, isCancelled = False,
        reorderPlan = [\<lparr>duration = 30, title = ''A''\<rparr>, \<lparr>duration = 40, title = ''B''\<rparr>],
        storage = [], playlist = [Some ''A'', Some ''B''], events = []\<rparr>))) \<le> 1 \<and>
   statusField ''state'' (storage (finalWorld (reorderLoop id (\<lambda>p. p = Wait 1) 2 2
      \<lparr>isReordering = True, isCancelled = False,
        reorderPlan = [\<lparr>duration = 30, title = ''A''\<rparr>, \<lparr>duration = 40, title = ''B''\<rparr>],
        storage = [], playlist = [Some ''A'', Some ''B''], events = []\<rparr>))) =
     Some (JString ''idle'')"
proof -
  let ?w = "\<lparr>isReordering = True, isCancelled = False,
        reorderPlan = [\<lparr>duration = 30, title = ''A''\<rparr>, \<lparr>duration = 40, title = ''B''\<rparr>],
        storage = [], playlist = [Some ''A'', Some ''B''], events = []\<rparr>"
  let ?s = "\<lambda>p. p = Wait 1"
  have h: "isReordering ?w" and e: "isReordering ?w \<and> events ?w = []" by simp_all
  note t = cancel_stops_reordering
    [where w = ?w and scroll = id and sched = ?s and totalVideos = 2 and i = 0 and k = 2
       and containerFound = True]
  from t h have a: "\<exists>w'. onMessage CancelReorder ?w = (Some (Response ''cancelling'' None), None, w') \<and>
      statusField ''state'' (storage w') = Some (JString ''idle'')" by blast
  from t e have b: "movesAfterCancel (events (finalWorld (reorderLoop id ?s 2 2 ?w))) \<le> 1" by blast
  have run: "finalWorld (reorderLoop id ?s 2 2 ?w) =
     \<lparr>isReordering = False, isCancelled = True, reorderPlan = [],
        storage = [(''reorder_status'', statusRecord ''idle'' None None None None)],
        playlist = [Some ''B'', Some ''A''], events = [MoveToTop (Some ''B''), CancelRequest]\<rparr>"
    by (simp add: numeral_2_eq_2 iteration_def findVideoElementByTitle_def moveAndReport_def
        moveToTop_def updateStatus_def storageSet_def deliver_def onMessage_def Let_def)
  from h a b run show ?thesis
    by (simp add: statusField_def storageGet_def statusRecord_def)
qed

text \<open>
  C4, as stated, fails when the request arrives between the opening of the menu and the
  click on its item: the click follows the request.
\<close>

theorem move_after_cancel_request:
  "events (finalWorld (reorderLoop id (\<lambda>p. p = Menu 1) 2 2 \<lparr>isReordering = True, isCancelled = False,
        reorderPlan = [\<lparr>duration = 30, title = ''A''\<rparr>, \<lparr>duration = 40, title = ''B''\<rparr>],
        storage = [], playlist = [Some ''A'', Some ''B''], events = []\<rparr>)) =
     [CancelRequest, MoveToTop (Some ''B'')] \<and>
   movesAfterCancel (events (finalWorld (reorderLoop id (\<lambda>p. p = Menu 1) 2 2
      \<lparr>isReordering = True, isCancelled = False,
        reorderPlan = [\<lparr>duration = 30, title = ''A''\<rparr>, \<lparr>duration = 40, title = ''B''\<rparr>],
        storage = [], playlist = [Some ''A'', Some ''B''], events = []\<rparr>))) = 1 \<and>
   playlist (finalWorld (reorderLoop id (\<lambda>p. p = Menu 1) 2 2
      \<lparr>isReordering = True, isCancelled = False,
        reorderPlan = [\<lparr>duration = 30, title = ''A''\<rparr>, \<lparr>duration = 40, title = ''B''\<rparr>],
        storage = [], playlist = [Some ''A'', Some ''B''], events = []\<rparr>)) =
     [Some ''B'', Some ''A'']"
  by (simp add: numeral_2_eq_2 iteration_def findVideoElementByTitle_def moveAndReport_def
        moveToTop_def updateStatus_def storageSet_def deliver_def onMessage_def Let_def
        movesAfterCancel_def)

text \<open>
  The state that is left when the request falls into the last round: that round's
  progress write comes after the handler's \<open>idle\<close>, the loop ends without another
  check, and \<open>executeReorder\<close> returns on \<open>isCancelled\<close> without a write.
\<close>

lemma status_left_reordering_after_cancel:
  "events (executeReorder True id (\<lambda>p. p = Wait 0)
     \<lparr>isReordering = True, isCancelled = False,
        reorderPlan = [\<lparr>duration = 30, title = ''A''\<rparr>, \<lparr>duration = 40, title = ''B''\<rparr>],
        storage = [], playlist = [Some ''B'', Some ''A''], events = []\<rparr>) =
     [MoveToTop (Some ''B''), MoveToTop (Some ''A''), CancelRequest] \<and>
   statusField ''state'' (storage (executeReorder True id (\<lambda>p. p = Wait 0)
     \<lparr>isReordering = True, isCancelled = False,
        reorderPlan = [\<lparr>duration = 30, title = ''A''\<rparr>, \<lparr>duration = 40, title = ''B''\<rparr>],
        storage = [], playlist = [Some ''B'', Some ''A''], events = []\<rparr>)) =
     Some (JString ''reordering'')"
  by (simp add: executeReorder_def numeral_2_eq_2 iteration_def findVideoElementByTitle_def
      moveAndReport_def moveToTop_def updateStatus_def storageSet_def deliver_def onMessage_def
      Let_def statusField_def storageGet_def statusRecord_def)


section \<open>The earlier script: its preview and its moves\<close>

text \<open>
  A sort by a comparator that agrees with a total, transitive relation on the elements
  of the list gives a list sorted for that relation, with the same elements.
\<close>

lemma set_insertBy: "set (insertBy cmp x xs) = insert x (set xs)"
  by (induction xs) auto

lemma mset_insertBy: "mset (insertBy cmp x xs) = add_mset x (mset xs)"
  by (induction xs) auto

lemma mset_sortBy: "mset (sortBy cmp xs) = mset xs"
  by (induction xs) (simp_all add: sortBy_def mset_insertBy)

lemma set_sortBy: "set (sortBy cmp xs) = set xs"
  using mset_sortBy [of cmp xs] by (metis set_mset_mset)

lemma sorted_wrt_insertBy:
  assumes cmp: "\<And>a b. a \<in> A \<Longrightarrow> b \<in> A \<Longrightarrow> (cmp a b \<le> 0) = R a b"
    and total: "\<And>a b. a \<in> A \<Longrightarrow> b \<in> A \<Longrightarrow> R a b \<or> R b a"
    and trans: "\<And>a b c. a \<in> A \<Longrightarrow> b \<in> A \<Longrightarrow> c \<in> A \<Longrightarrow> R a b \<Longrightarrow> R b c \<Longrightarrow> R a c"
    and x: "x \<in> A" and xs: "set xs \<subseteq> A" and sorted: "sorted_wrt R xs"
  shows "sorted_wrt R (insertBy cmp x xs)"
  using xs sorted
proof (induction xs)
  case Nil
  then show ?case by simp
next
  case (Cons y ys)
  have y: "y \<in> A" and ys: "set ys \<subseteq> A" using Cons.prems(1) by simp_all
  show ?case
  proof (cases "cmp x y \<le> 0")
    case True
    then have xy: "R x y" using cmp [OF x y] by simp
    have "R x z" if "z \<in> set ys" for z
    proof -
      from that Cons.prems(2) have "R y z" by simp
      with xy show ?thesis using trans [OF x y] that ys by blast
    qed
    with True xy Cons.prems(2) show ?thesis by simp
  next
    case False
    then have "\<not> R x y" using cmp [OF x y] by simp
    then have yx: "R y x" using total [OF x y] by blast
    have "sorted_wrt R (insertBy cmp x ys)" using Cons.IH ys Cons.prems(2) by simp
    with False yx Cons.prems(2) show ?thesis by (simp add: set_insertBy)
  qed
qed

lemma sorted_wrt_sortBy:
  assumes cmp: "\<And>a b. a \<in> A \<Longrightarrow> b \<in> A \<Longrightarrow> (cmp a b \<le> 0) = R a b"
    and total: "\<And>a b. a \<in> A \<Longrightarrow> b \<in> A \<Longrightarrow> R a b \<or> R b a"
    and trans: "\<And>a b c. a \<in> A \<Longrightarrow> b \<in> A \<Longrightarrow> c \<in> A \<Longrightarrow> R a b \<Longrightarrow> R b c \<Longrightarrow> R a c"
    and xs: "set xs \<subseteq> A"
  shows "sorted_wrt R (sortBy cmp xs)"
  using xs
proof (induction xs)
  case Nil
  then show ?case by (simp add: sortBy_def)
next
  case (Cons x xs)
  have "sorted_wrt R (insertBy cmp x (sortBy cmp xs))"
  proof (rule sorted_wrt_insertBy [where A = A])
    show "x \<in> A" using Cons.prems by simp
    show "set (sortBy cmp xs) \<subseteq> A" using Cons.prems by (simp add: set_sortBy)
    show "sorted_wrt R (sortBy cmp xs)" using Cons by simp
  qed (use cmp total trans in blast)+
  then show ?case by (simp add: sortBy_def)
qed


text \<open>Subtraction and comparison of durations that are not \<open>NaN\<close>.\<close>

lemma n_sign_sub_le:
  "a \<noteq> NaN \<Longrightarrow> b \<noteq> NaN \<Longrightarrow> (n_sign (n_sub a b) \<le> 0) = n_le a b"
  by (cases a; cases b) (auto simp: n_sub_def sgn_if)

lemma n_le_total: "a \<noteq> NaN \<Longrightarrow> b \<noteq> NaN \<Longrightarrow> n_le a b \<or> n_le b a"
  by (cases a; cases b) auto

lemma n_le_trans: "n_le a b \<Longrightarrow> n_le b c \<Longrightarrow> n_le a c"
  by (cases a; cases b; cases c) auto

lemma n_le_not_NaN: "n_le a b \<Longrightarrow> a \<noteq> NaN"
  by (cases a) auto

text \<open>
  The filter keeps the entries whose duration is at most the limit; none of them has
  the duration \<open>NaN\<close>.  The preview and the list of moves hold the kept entries,
  sorted by duration in opposite directions.
\<close>

lemma videosToReorder_kept:
  "set (videosToReorder m allVideos) =
     {v \<in> set allVideos. n_le (listedDuration v) (n_mul m (Num 60))}"
  by (simp add: videosToReorder_def)

lemma videosToReorder_not_NaN:
  "v \<in> set (videosToReorder m allVideos) \<Longrightarrow> listedDuration v \<noteq> NaN"
  by (auto simp: videosToReorder_def dest: n_le_not_NaN)

lemma finalOrderVideos_mset: "mset (finalOrderVideos sortOrder vs) = mset vs"
  by (simp add: finalOrderVideos_def mset_sortBy)

lemma moveOrder_mset: "mset (moveOrder sortOrder vs) = mset vs"
  by (simp add: moveOrder_def mset_sortBy)

lemma finalOrderVideos_sorted:
  assumes "\<forall>v \<in> set vs. listedDuration v \<noteq> NaN"
  shows "sorted_wrt (\<lambda>a b. if sortOrder = ''asc''
                            then n_le (listedDuration a) (listedDuration b)
                            else n_le (listedDuration b) (listedDuration a))
           (finalOrderVideos sortOrder vs)"
  unfolding finalOrderVideos_def
proof (rule sorted_wrt_sortBy [where A = "{v. listedDuration v \<noteq> NaN}"])
  show "set vs \<subseteq> {v. listedDuration v \<noteq> NaN}" using assms by blast
next
  fix a b assume "a \<in> {v. listedDuration v \<noteq> NaN}" "b \<in> {v. listedDuration v \<noteq> NaN}"
  then show "(n_sign (if sortOrder = ''asc''
                      then n_sub (listedDuration a) (listedDuration b)
                      else n_sub (listedDuration b) (listedDuration a)) \<le> 0) =
             (if sortOrder = ''asc''
              then n_le (listedDuration a) (listedDuration b)
              else n_le (listedDuration b) (listedDuration a))"
    by (simp add: n_sign_sub_le)
next
  fix a b assume "a \<in> {v. listedDuration v \<noteq> NaN}" "b \<in> {v. listedDuration v \<noteq> NaN}"
  then show "(if sortOrder = ''asc''
              then n_le (listedDuration a) (listedDuration b)
              else n_le (listedDuration b) (listedDuration a)) \<or>
             (if sortOrder = ''asc''
              then n_le (listedDuration b) (listedDuration a)
              else n_le (listedDuration a) (listedDuration b))"
    using n_le_total [of "listedDuration a" "listedDuration b"] by auto
next
  fix a b c
  assume "if sortOrder = ''asc''
          then n_le (listedDuration a) (listedDuration b)
          else n_le (listedDuration b) (listedDuration a)"
     and "if sortOrder = ''asc''
          then n_le (listedDuration b) (listedDuration c)
          else n_le (listedDuration c) (listedDuration b)"
  then show "if sortOrder = ''asc''
             then n_le (listedDuration a) (listedDuration c)
             else n_le (listedDuration c) (listedDuration a)"
    using n_le_trans [of "listedDuration a" "listedDuration b" "listedDuration c"]
      n_le_trans [of "listedDuration c" "listedDuration b" "listedDuration a"]
    by (simp split: if_splits)
qed

lemma moveOrder_finalOrderVideos:
  "moveOrder sortOrder vs =
     finalOrderVideos (if sortOrder = ''asc'' then ''desc'' else ''asc'') vs"
  by (simp add: moveOrder_def finalOrderVideos_def)

lemma moveOrder_sorted:
  assumes "\<forall>v \<in> set vs. listedDuration v \<noteq> NaN"
  shows "sorted_wrt (\<lambda>a b. if sortOrder = ''asc''
                            then n_le (listedDuration b) (listedDuration a)
                            else n_le (listedDuration a) (listedDuration b))
           (moveOrder sortOrder vs)"
proof (cases "sortOrder = ''asc''")
  case True
  then show ?thesis
    using finalOrderVideos_sorted [OF assms, of "''desc''"]
    by (simp add: moveOrder_finalOrderVideos)
next
  case False
  then show ?thesis
    using finalOrderVideos_sorted [OF assms, of "''asc''"]
    by (simp add: moveOrder_finalOrderVideos)
qed

text \<open>
  When the entries of the page are distinct and the entries to move have distinct
  titles that are all on the page, the loop leaves them at the top in the reverse of
  the order of the moves, followed by the other entries in their old order.
\<close>

lemma moveEach_result:
  assumes "distinct els" and "distinct (map listedTitle moves)"
    and "\<forall>v \<in> set moves. Some (listedTitle v) \<in> set els"
  shows "moveEach moves els =
           map (\<lambda>v. Some (listedTitle v)) (rev moves)
           @ filter (\<lambda>el. el \<notin> (\<lambda>v. Some (listedTitle v)) ` set moves) els"
  using assms
proof (induction moves arbitrary: els)
  case Nil
  then show ?case by simp
next
  case (Cons v rest)
  let ?t = "Some (listedTitle v)"
  let ?els = "?t # remove1 ?t els"
  have found: "findVideoElementByTitle (listedTitle v) els = Some ?t"
    using Cons.prems(3) by (simp add: findVideoElementByTitle_present)
  have d: "distinct ?els" using Cons.prems(1) by simp
  have r: "distinct (map listedTitle rest)" using Cons.prems(2) by simp
  have fresh: "?t \<notin> (\<lambda>v. Some (listedTitle v)) ` set rest"
    using Cons.prems(2) by auto
  have p: "\<forall>u \<in> set rest. Some (listedTitle u) \<in> set ?els"
  proof
    fix u assume u: "u \<in> set rest"
    then have "Some (listedTitle u) \<in> set els" using Cons.prems(3) by simp
    moreover have "listedTitle u \<noteq> listedTitle v"
      using u Cons.prems(2) by (metis distinct.simps(2) image_eqI list.simps(9) set_map)
    then have "Some (listedTitle u) \<noteq> ?t" by simp
    ultimately show "Some (listedTitle u) \<in> set ?els" by simp
  qed
  have "moveEach (v # rest) els = moveEach rest ?els" using found by simp
  also have "\<dots> = map (\<lambda>v. Some (listedTitle v)) (rev rest)
                     @ filter (\<lambda>el. el \<notin> (\<lambda>v. Some (listedTitle v)) ` set rest) ?els"
    using Cons.IH [OF d r p] .
  also have "filter (\<lambda>el. el \<notin> (\<lambda>v. Some (listedTitle v)) ` set rest) ?els =
               ?t # filter (\<lambda>el. el \<notin> (\<lambda>v. Some (listedTitle v)) ` set (v # rest)) els"
  proof -
    have "remove1 ?t els = filter (\<lambda>el. el \<noteq> ?t) els"
      using Cons.prems(1) by (induction els) (auto intro: filter_True [symmetric])
    then have "filter (\<lambda>el. el \<notin> (\<lambda>v. Some (listedTitle v)) ` set rest) ?els =
                 ?t # filter (\<lambda>el. el \<notin> (\<lambda>v. Some (listedTitle v)) ` set rest \<and> el \<noteq> ?t) els"
      using fresh by (simp add: conj_commute)
    also have "(\<lambda>el. el \<notin> (\<lambda>v. Some (listedTitle v)) ` set rest \<and> el \<noteq> ?t) =
                 (\<lambda>el. el \<notin> (\<lambda>v. Some (listedTitle v)) ` set (v # rest))"
      by (rule ext) auto
    finally show ?thesis .
  qed
  finally show ?case by simp
qed

text \<open>
  Both sorts are stable, so entries of equal duration come in page order in the preview
  and in the list of moves alike, and moving them to the top one by one turns them
  round: with two entries of one minute, \<open>a\<close> before \<open>c\<close>, the preview shows
  \<open>a, c\<close> and the page ends with \<open>c, a\<close>.
\<close>

lemma preview_differs_on_ties:
  "let vs = videosToReorder (Num 2)
              (getVideoData [(Some ''a'', Some ''1:00''), (Some ''b'', Some ''5:00''),
                             (Some ''c'', Some ''1:00'')])
   in map listedTitle (finalOrderVideos ''asc'' vs) = [''a'', ''c'']
    \<and> moveEach (moveOrder ''asc'' vs) [Some ''a'', Some ''b'', Some ''c'']
        = [Some ''c'', Some ''a'', Some ''b'']"
  by code_simp
end
